theory Spec2Isabelle
  imports Main "HOL-Library.Word" "HOL-Library.Sublist"
begin

section \<open>Machine types, failures and time\<close>

type_synonym byte = "8 word"
type_synonym int32 = "32 word"
type_synonym uint32 = "32 word"
type_synonym int64 = "64 word"

text \<open>
  Go \<open>error\<close> values built by the decoder. Each constructor stands for one error site
  of the source:
  \<^item> \<open>EOF\<close>, \<open>ErrUnexpectedEOF\<close>: what \<open>io.ReadFull\<close> returns;
  \<^item> \<open>BlobHeaderSizeTooBig\<close>: \<open>errors.New("BlobHeader size >= 64Kb")\<close>;
  \<^item> \<open>BlobSizeTooBig\<close>: \<open>errors.New("Blob size >= 32Mb")\<close>;
  \<^item> \<open>UnknownBlobData\<close>: \<open>errors.New("unknown blob data")\<close>;
  \<^item> \<open>RawSizeMismatch got want\<close>: \<open>"raw blob data size %d but expected %d"\<close>;
  \<^item> \<open>MissingCapability f\<close>: \<open>"parser does not have %s capability"\<close>;
  \<^item> \<open>UnexpectedFirstFileblock t\<close>: \<open>"unexpected first fileblock of type %s"\<close>;
  \<^item> \<open>UnexpectedFileblock t\<close>: \<open>"unexpected fileblock of type %s"\<close>;
  \<^item> \<open>LibraryError m\<close>: an error returned by the zlib or protobuf library.
\<close>

datatype go_error =
    EOF
  | ErrUnexpectedEOF
  | BlobHeaderSizeTooBig
  | BlobSizeTooBig
  | UnknownBlobData
  | RawSizeMismatch nat int
  | MissingCapability string
  | UnexpectedFirstFileblock string
  | UnexpectedFileblock string
  | LibraryError string

text \<open>
  Go run-time panics: an index expression out of range, \<open>make\<close> with a negative length
  or capacity, and an explicit \<open>panic(msg)\<close>. A panic is not an \<open>error\<close> value: it
  unwinds the goroutine and, unrecovered, ends the program.
\<close>

datatype go_panic =
    IndexOutOfRange
  | MakesliceOutOfRange
  | PanicMsg string

datatype failure = Error go_error | Panic go_panic

text \<open>
  \<open>time.Time\<close>: the zero value \<open>time.Time{}\<close>, or \<open>time.Unix(0, ns).UTC()\<close> for an
  \<open>int64\<close> count of nanoseconds since the epoch. The zero value is year 1 and is no
  \<open>time.Unix(0, ns)\<close>.
\<close>

datatype Time = ZeroTime | UnixNanoUTC int64

text \<open>
  \<open>float64\<close> coordinates. The source computes \<open>1e-9 * float64(x)\<close> for an \<open>int64\<close>
  \<open>x\<close>; floating-point rounding is not modelled, the value is kept as that expression.
\<close>

datatype float64 = Times1em9 int64

definition index_at :: "'a list \<Rightarrow> nat \<Rightarrow> failure + 'a" where
  \<comment> \<open>the Go index expression \<open>xs[i]\<close> for \<open>i \<ge> 0\<close>\<close>
  "index_at xs i = (if i < length xs then Inr (xs ! i) else Inl (Panic IndexOutOfRange))"

definition index_int :: "'a list \<Rightarrow> int \<Rightarrow> failure + 'a" where
  \<comment> \<open>the Go index expression \<open>xs[i]\<close> for a signed index\<close>
  "index_int xs i = (if 0 \<le> i \<and> i < int (length xs) then Inr (xs ! nat i)
                      else Inl (Panic IndexOutOfRange))"

section \<open>Emitted entities\<close>

type_synonym tags = "string \<rightharpoonup> string"

record Node =
  Node_ID :: int64
  Node_Lat :: float64
  Node_Lon :: float64
  Node_Tags :: tags
  Node_Timestamp :: Time

record Way =
  Way_ID :: int64
  Way_Tags :: tags
  Way_NodeIDs :: "int64 list"
  Way_Timestamp :: Time

datatype MemberType = NodeType | WayType | RelationType

record Member =
  Member_ID :: int64
  Member_Type :: MemberType
  Member_Role :: string

record Relation =
  Relation_ID :: int64
  Relation_Tags :: tags
  Relation_Members :: "Member list"
  Relation_Timestamp :: Time

datatype entity = ENode Node | EWay Way | ERelation Relation

section \<open>Protobuf messages\<close>

text \<open>
  Modelled from the spec: the generated message types of package \<open>OSMPBF\<close> are not among
  the source files. Their fields, integer widths and defaults are those of the spec's
  sections 4.1, 4.3 and 6; an optional field is an \<open>option\<close> and its getter applies the
  default, a repeated field is a list, a sub-message that may be missing is an
  \<open>option\<close> and a getter on a missing message returns the zero value.
\<close>

text \<open>Modelled from the spec: the message \<open>OSMPBF.Info\<close>, with the fields the decoder reads.\<close>

record Info =
  Info_timestamp :: "int64 option"

definition Info_GetTimestamp :: "Info \<Rightarrow> int64" where
  \<comment> \<open>Modelled from the spec: the getter of the generated message type\<close>
  "Info_GetTimestamp i = (case Info_timestamp i of None \<Rightarrow> 0 | Some t \<Rightarrow> t)"

text \<open>Modelled from the spec: the message \<open>OSMPBF.Node\<close>, with the fields the decoder reads.\<close>

record PB_Node =
  PBN_id :: int64
  PBN_keys :: "uint32 list"
  PBN_vals :: "uint32 list"
  PBN_info :: "Info option"
  PBN_lat :: int64
  PBN_lon :: int64

text \<open>
  A Go slice is \<open>nil\<close> or not; the source tests the timestamps of \<open>DenseInfo\<close> against
  \<open>nil\<close>, so that field is an \<open>option\<close> of a list (\<open>None\<close> is \<open>nil\<close>).
\<close>

text \<open>Modelled from the spec: the message \<open>OSMPBF.DenseInfo\<close>, with the fields the decoder reads.\<close>

record DenseInfo =
  DI_timestamp :: "int64 list option"

text \<open>Modelled from the spec: the message \<open>OSMPBF.DenseNodes\<close>, with the fields the decoder reads.\<close>

record DenseNodes =
  DN_id :: "int64 list"
  DN_denseinfo :: "DenseInfo option"
  DN_lat :: "int64 list"
  DN_lon :: "int64 list"
  DN_keys_vals :: "int32 list"

definition GetId :: "DenseNodes option \<Rightarrow> int64 list" where
  \<comment> \<open>Modelled from the spec: the getter of the generated message type\<close>
  "GetId dn = (case dn of None \<Rightarrow> [] | Some d \<Rightarrow> DN_id d)"

definition GetLat :: "DenseNodes option \<Rightarrow> int64 list" where
  \<comment> \<open>Modelled from the spec: the getter of the generated message type\<close>
  "GetLat dn = (case dn of None \<Rightarrow> [] | Some d \<Rightarrow> DN_lat d)"

definition GetLon :: "DenseNodes option \<Rightarrow> int64 list" where
  \<comment> \<open>Modelled from the spec: the getter of the generated message type\<close>
  "GetLon dn = (case dn of None \<Rightarrow> [] | Some d \<Rightarrow> DN_lon d)"

definition GetKeysVals :: "DenseNodes option \<Rightarrow> int32 list" where
  \<comment> \<open>Modelled from the spec: the getter of the generated message type\<close>
  "GetKeysVals dn = (case dn of None \<Rightarrow> [] | Some d \<Rightarrow> DN_keys_vals d)"

definition GetDenseinfo :: "DenseNodes option \<Rightarrow> DenseInfo option" where
  \<comment> \<open>Modelled from the spec: the getter of the generated message type\<close>
  "GetDenseinfo dn = (case dn of None \<Rightarrow> None | Some d \<Rightarrow> DN_denseinfo d)"

text \<open>Modelled from the spec: the message \<open>OSMPBF.Way\<close>, with the fields the decoder reads.\<close>

record PB_Way =
  PBW_id :: int64
  PBW_keys :: "uint32 list"
  PBW_vals :: "uint32 list"
  PBW_info :: "Info option"
  PBW_refs :: "int64 list"

text \<open>
  Modelled from the spec: the member-type enumeration \<open>OSMPBF.Relation_MemberType\<close>, an
  \<open>int32\<close> in Go, and its three values.
\<close>

type_synonym Relation_MemberType = int32

definition Relation_NODE :: Relation_MemberType where "Relation_NODE = 0"
definition Relation_WAY :: Relation_MemberType where "Relation_WAY = 1"
definition Relation_RELATION :: Relation_MemberType where "Relation_RELATION = 2"

text \<open>Modelled from the spec: the message \<open>OSMPBF.Relation\<close>, with the fields the decoder reads.\<close>

record PB_Relation =
  PBR_id :: int64
  PBR_keys :: "uint32 list"
  PBR_vals :: "uint32 list"
  PBR_info :: "Info option"
  PBR_roles_sid :: "int32 list"
  PBR_memids :: "int64 list"
  PBR_types :: "Relation_MemberType list"

text \<open>Modelled from the spec: the message \<open>OSMPBF.PrimitiveGroup\<close>, with the fields the decoder reads.\<close>

record PrimitiveGroup =
  PG_nodes :: "PB_Node list"
  PG_dense :: "DenseNodes option"
  PG_ways :: "PB_Way list"
  PG_relations :: "PB_Relation list"

text \<open>Modelled from the spec: the message \<open>OSMPBF.PrimitiveBlock\<close>, with the fields the decoder reads.\<close>

record PrimitiveBlock =
  PB_stringtable :: "string list"
  PB_primitivegroup :: "PrimitiveGroup list"
  PB_granularity :: "int32 option"
  PB_lat_offset :: "int64 option"
  PB_lon_offset :: "int64 option"
  PB_date_granularity :: "int32 option"

definition GetGranularity :: "PrimitiveBlock \<Rightarrow> int32" where
  \<comment> \<open>Modelled from the spec: the getter of the generated message type\<close>
  "GetGranularity pb = (case PB_granularity pb of None \<Rightarrow> 100 | Some g \<Rightarrow> g)"

definition GetLatOffset :: "PrimitiveBlock \<Rightarrow> int64" where
  \<comment> \<open>Modelled from the spec: the getter of the generated message type\<close>
  "GetLatOffset pb = (case PB_lat_offset pb of None \<Rightarrow> 0 | Some x \<Rightarrow> x)"

definition GetLonOffset :: "PrimitiveBlock \<Rightarrow> int64" where
  \<comment> \<open>Modelled from the spec: the getter of the generated message type\<close>
  "GetLonOffset pb = (case PB_lon_offset pb of None \<Rightarrow> 0 | Some x \<Rightarrow> x)"

definition GetDateGranularity :: "PrimitiveBlock \<Rightarrow> int32" where
  \<comment> \<open>Modelled from the spec: the getter of the generated message type\<close>
  "GetDateGranularity pb = (case PB_date_granularity pb of None \<Rightarrow> 1000 | Some g \<Rightarrow> g)"

text \<open>Modelled from the spec: the message \<open>OSMPBF.BlobHeader\<close>, with the fields the decoder reads.\<close>

record BlobHeader =
  BH_type :: string
  BH_datasize :: int32

text \<open>Modelled from the spec: the message \<open>OSMPBF.Blob\<close>, with the fields the decoder reads.\<close>

record Blob =
  Blob_raw :: "byte list option"
  Blob_raw_size :: "int32 option"
  Blob_zlib_data :: "byte list option"

definition GetRawSize :: "Blob \<Rightarrow> int32" where
  \<comment> \<open>Modelled from the spec: the getter of the generated message type\<close>
  "GetRawSize b = (case Blob_raw_size b of None \<Rightarrow> 0 | Some n \<Rightarrow> n)"

text \<open>Modelled from the spec: the message \<open>OSMPBF.HeaderBlock\<close>, with the fields the decoder reads.\<close>

record HeaderBlock =
  HB_required_features :: "string list"

section \<open>Tag decoding\<close>

definition stringTable_at :: "string list \<Rightarrow> uint32 \<Rightarrow> failure + string" where
  \<comment> \<open>\<open>stringTable[i]\<close> for an unsigned index\<close>
  "stringTable_at st i = index_at st (unat i)"

definition stringTable_at_int32 :: "string list \<Rightarrow> int32 \<Rightarrow> failure + string" where
  \<comment> \<open>\<open>stringTable[i]\<close> for a signed index\<close>
  "stringTable_at_int32 st i = index_int st (sint i)"

text \<open>
  Modelled from the spec: \<open>extractTags\<close> is called by the source files but defined in a
  file that is not among them. The spec (Sparse Nodes) gives
  \<open>tags = { stringtable[keys[i]] \<rightarrow> stringtable[vals[i]] }\<close>. The call sites take one
  result and no error, so an index out of range is the Go panic.
\<close>

fun extractTags_loop ::
  "string list \<Rightarrow> uint32 list \<Rightarrow> uint32 list \<Rightarrow> nat \<Rightarrow> tags \<Rightarrow> failure + tags" where
  "extractTags_loop st [] vals i t = Inr t"
| "extractTags_loop st (k # ks) vals i t =
     (case stringTable_at st k of Inl e \<Rightarrow> Inl e | Inr key \<Rightarrow>
      case index_at vals i of Inl e \<Rightarrow> Inl e | Inr vi \<Rightarrow>
      case stringTable_at st vi of Inl e \<Rightarrow> Inl e | Inr val \<Rightarrow>
        extractTags_loop st ks vals (Suc i) (t(key \<mapsto> val)))"

definition extractTags :: "string list \<Rightarrow> uint32 list \<Rightarrow> uint32 list \<Rightarrow> failure + tags" where
  \<comment> \<open>Modelled from the spec: the loop above from index 0 and the empty map\<close>
  "extractTags st keys vals = extractTags_loop st keys vals 0 Map.empty"

text \<open>
  Modelled from the spec: \<open>tagUnpacker\<close> and its method \<open>next\<close> are used by
  \<open>parseDenseNodes\<close> but defined in a file that is not among the source files. The
  spec (DenseNodes) gives the loop: while the cursor is inside \<open>keys_vals\<close> and the
  entry under it is not 0, read a key index and a value index, store the pair and advance
  by two; then skip the 0 terminator if the cursor is still inside. The unpacker's state
  is the cursor; the string table and \<open>keys_vals\<close> do not change.
\<close>

function tagUnpacker_loop ::
  "string list \<Rightarrow> int32 list \<Rightarrow> nat \<Rightarrow> tags \<Rightarrow> failure + (tags \<times> nat)" where
  "tagUnpacker_loop st kvs c t =
     (if c < length kvs \<and> kvs ! c \<noteq> 0 then
        (case stringTable_at_int32 st (kvs ! c) of Inl e \<Rightarrow> Inl e | Inr k \<Rightarrow>
         case index_at kvs (c + 1) of Inl e \<Rightarrow> Inl e | Inr vi \<Rightarrow>
         case stringTable_at_int32 st vi of Inl e \<Rightarrow> Inl e | Inr v \<Rightarrow>
           tagUnpacker_loop st kvs (c + 2) (t(k \<mapsto> v)))
      else Inr (t, c))"
  by pat_completeness auto
termination
  by (relation "measure (\<lambda>(st, kvs, c, t). length kvs - c)") auto

definition tagUnpacker_next ::
  "string list \<Rightarrow> int32 list \<Rightarrow> nat \<Rightarrow> failure + (tags \<times> nat)" where
  \<comment> \<open>Modelled from the spec: the loop above from the empty map, then the skip of the
      terminator; the result is the tags and the new cursor\<close>
  "tagUnpacker_next st kvs c =
     (case tagUnpacker_loop st kvs c Map.empty of Inl e \<Rightarrow> Inl e
      | Inr (t, c') \<Rightarrow> Inr (t, if c' < length kvs then c' + 1 else c'))"

section \<open>The PrimitiveBlock decoder\<close>

definition int64_of_int32 :: "int32 \<Rightarrow> int64" where
  \<comment> \<open>the conversion \<open>int64(x)\<close> of an \<open>int32\<close>: sign extension\<close>
  "int64_of_int32 x = scast x"

definition timestamp_to_Time :: "int64 \<Rightarrow> int64 \<Rightarrow> Time" where
  \<comment> \<open>\<open>millisec := time.Duration(t*dateGranularity) * time.Millisecond;
      time.Unix(0, millisec.Nanoseconds()).UTC()\<close>; a \<open>Duration\<close> is an \<open>int64\<close> of
      nanoseconds and \<open>time.Millisecond\<close> is 1000000\<close>
  "timestamp_to_Time t dateGranularity = UnixNanoUTC ((t * dateGranularity) * 1000000)"

definition coordinate :: "int64 \<Rightarrow> int64 \<Rightarrow> int64 \<Rightarrow> float64" where
  \<comment> \<open>\<open>1e-9 * float64((offset + (granularity * c)))\<close>\<close>
  "coordinate offset granularity c = Times1em9 (offset + (granularity * c))"

subsection \<open>parseNodes\<close>

text \<open>
  The body of the loop ends in an unconditional \<open>panic("Please test this first")\<close>, after
  the node has been appended to the queue: the first entry ends the function.
  The timestamp of the appended node is \<open>time.Time{}\<close>.
\<close>

fun parseNodes :: "PrimitiveBlock \<Rightarrow> PB_Node list \<Rightarrow> entity list \<Rightarrow> failure + entity list" where
  "parseNodes pb [] q = Inr q"
| "parseNodes pb (node # nodes) q =
     (let st = PB_stringtable pb;
          granularity = int64_of_int32 (GetGranularity pb);
          latOffset = GetLatOffset pb;
          lonOffset = GetLonOffset pb;
          id = PBN_id node;
          lat = PBN_lat node;
          lon = PBN_lon node;
          latitude = coordinate latOffset granularity lat;
          longitude = coordinate lonOffset granularity lon
      in case extractTags st (PBN_keys node) (PBN_vals node) of Inl e \<Rightarrow> Inl e
         | Inr tags \<Rightarrow>
           (let q' = q @ [ENode \<lparr>Node_ID = id, Node_Lat = latitude, Node_Lon = longitude,
                                  Node_Tags = tags, Node_Timestamp = ZeroTime\<rparr>]
            in Inl (Panic (PanicMsg ''Please test this first''))))"

subsection \<open>parseDenseNodes\<close>

record dense_acc =
  acc_id :: int64
  acc_lat :: int64
  acc_lon :: int64
  acc_timestamp :: int64
  acc_ts :: Time
  acc_tu :: nat

definition dense_timestamps :: "DenseNodes option \<Rightarrow> int64 list option" where
  \<comment> \<open>\<open>var timestamps []int64; if di != nil { timestamps = di.GetTimestamp() }\<close>\<close>
  "dense_timestamps dn =
     (case GetDenseinfo dn of None \<Rightarrow> None | Some di \<Rightarrow> DI_timestamp di)"

fun parseDenseNodes_loop ::
  "PrimitiveBlock \<Rightarrow> DenseNodes option \<Rightarrow> int64 list \<Rightarrow> nat \<Rightarrow> dense_acc \<Rightarrow> entity list
     \<Rightarrow> failure + entity list" where
  "parseDenseNodes_loop pb dn [] index a q = Inr q"
| "parseDenseNodes_loop pb dn (d # rest) index a q =
     (let st = PB_stringtable pb;
          granularity = int64_of_int32 (GetGranularity pb);
          latOffset = GetLatOffset pb;
          lonOffset = GetLonOffset pb;
          dateGranularity = int64_of_int32 (GetDateGranularity pb);
          id = d + acc_id a
      in case index_at (GetLat dn) index of Inl e \<Rightarrow> Inl e | Inr dlat \<Rightarrow>
         case index_at (GetLon dn) index of Inl e \<Rightarrow> Inl e | Inr dlon \<Rightarrow>
         (let lat = dlat + acc_lat a;
              lon = dlon + acc_lon a;
              latitude = coordinate latOffset granularity lat;
              longitude = coordinate lonOffset granularity lon
          in case tagUnpacker_next st (GetKeysVals dn) (acc_tu a) of Inl e \<Rightarrow> Inl e
             | Inr (tags, tu) \<Rightarrow>
               (case dense_timestamps dn of
                  None \<Rightarrow>
                    parseDenseNodes_loop pb dn rest (Suc index)
                      (a\<lparr>acc_id := id, acc_lat := lat, acc_lon := lon, acc_tu := tu\<rparr>)
                      (q @ [ENode \<lparr>Node_ID = id, Node_Lat = latitude, Node_Lon = longitude,
                                    Node_Tags = tags, Node_Timestamp = acc_ts a\<rparr>])
                | Some timestamps \<Rightarrow>
                    (case index_at timestamps index of Inl e \<Rightarrow> Inl e | Inr dt \<Rightarrow>
                       (let timestamp = dt + acc_timestamp a;
                            ts = timestamp_to_Time timestamp dateGranularity
                        in parseDenseNodes_loop pb dn rest (Suc index)
                             \<lparr>acc_id = id, acc_lat = lat, acc_lon = lon,
                              acc_timestamp = timestamp, acc_ts = ts, acc_tu = tu\<rparr>
                             (q @ [ENode \<lparr>Node_ID = id, Node_Lat = latitude,
                                           Node_Lon = longitude, Node_Tags = tags,
                                           Node_Timestamp = ts\<rparr>]))))))"

definition dense_acc0 :: dense_acc where
  \<comment> \<open>\<open>tu := tagUnpacker{st, dn.GetKeysVals(), 0}; var id, lat, lon, timestamp int64;
      var ts time.Time\<close>\<close>
  "dense_acc0 = \<lparr>acc_id = 0, acc_lat = 0, acc_lon = 0, acc_timestamp = 0,
                 acc_ts = ZeroTime, acc_tu = 0\<rparr>"

definition parseDenseNodes ::
  "PrimitiveBlock \<Rightarrow> DenseNodes option \<Rightarrow> entity list \<Rightarrow> failure + entity list" where
  "parseDenseNodes pb dn q = parseDenseNodes_loop pb dn (GetId dn) 0 dense_acc0 q"

subsection \<open>parseWays\<close>

fun parseWays_refs :: "int64 list \<Rightarrow> nat \<Rightarrow> int64 \<Rightarrow> int64 list \<Rightarrow> int64 list" where
  \<comment> \<open>\<open>for index := range refs { nodeID = refs[index] + nodeID; nodeIDs[index] = nodeID }\<close>\<close>
  "parseWays_refs [] index nodeID nodeIDs = nodeIDs"
| "parseWays_refs (r # refs) index nodeID nodeIDs =
     (let nodeID' = r + nodeID
      in parseWays_refs refs (Suc index) nodeID' (nodeIDs[index := nodeID']))"

definition way_nodeIDs :: "int64 list \<Rightarrow> int64 list" where
  \<comment> \<open>\<open>var nodeID int64; nodeIDs := make([]int64, len(refs))\<close> and the loop\<close>
  "way_nodeIDs refs = parseWays_refs refs 0 0 (replicate (length refs) 0)"

definition info_Time :: "Info option \<Rightarrow> int64 \<Rightarrow> Time" where
  \<comment> \<open>\<open>var ts time.Time; if i != nil { ... i.GetTimestamp()*dateGranularity ... }\<close>\<close>
  "info_Time i dateGranularity =
     (case i of None \<Rightarrow> ZeroTime
      | Some info \<Rightarrow> timestamp_to_Time (Info_GetTimestamp info) dateGranularity)"

fun parseWays :: "PrimitiveBlock \<Rightarrow> PB_Way list \<Rightarrow> entity list \<Rightarrow> failure + entity list" where
  "parseWays pb [] q = Inr q"
| "parseWays pb (way # ways) q =
     (let st = PB_stringtable pb;
          dateGranularity = int64_of_int32 (GetDateGranularity pb);
          id = PBW_id way
      in case extractTags st (PBW_keys way) (PBW_vals way) of Inl e \<Rightarrow> Inl e
         | Inr tags \<Rightarrow>
           (let nodeIDs = way_nodeIDs (PBW_refs way);
                ts = info_Time (PBW_info way) dateGranularity
            in parseWays pb ways
                 (q @ [EWay \<lparr>Way_ID = id, Way_Tags = tags, Way_NodeIDs = nodeIDs,
                              Way_Timestamp = ts\<rparr>])))"

subsection \<open>extractMembers and parseRelations\<close>

definition memType_of :: "Relation_MemberType \<Rightarrow> MemberType" where
  \<comment> \<open>\<open>var memType MemberType\<close> and the \<open>switch\<close>, which has no default case;
      the zero value of \<open>MemberType\<close> is \<open>NodeType\<close>\<close>
  "memType_of t =
     (if t = Relation_NODE then NodeType
      else if t = Relation_WAY then WayType
      else if t = Relation_RELATION then RelationType
      else NodeType)"

definition Member0 :: Member where
  "Member0 = \<lparr>Member_ID = 0, Member_Type = NodeType, Member_Role = []\<rparr>"

fun extractMembers_loop ::
  "string list \<Rightarrow> Relation_MemberType list \<Rightarrow> int32 list \<Rightarrow> int64 list \<Rightarrow> nat \<Rightarrow> int64
     \<Rightarrow> Member list \<Rightarrow> failure + Member list" where
  "extractMembers_loop st types roleIDs [] index memID members = Inr members"
| "extractMembers_loop st types roleIDs (m # memIDs) index memID members =
     (let memID' = m + memID
      in case index_at types index of Inl e \<Rightarrow> Inl e | Inr t \<Rightarrow>
         (let memType = memType_of t
          in case index_at roleIDs index of Inl e \<Rightarrow> Inl e | Inr r \<Rightarrow>
             case stringTable_at_int32 st r of Inl e \<Rightarrow> Inl e | Inr role \<Rightarrow>
               extractMembers_loop st types roleIDs memIDs (Suc index) memID'
                 (members[index := \<lparr>Member_ID = memID', Member_Type = memType,
                                      Member_Role = role\<rparr>])))"

definition extractMembers :: "string list \<Rightarrow> PB_Relation \<Rightarrow> failure + Member list" where
  "extractMembers stringTable rel =
     extractMembers_loop stringTable (PBR_types rel) (PBR_roles_sid rel) (PBR_memids rel) 0 0
       (replicate (length (PBR_memids rel)) Member0)"

fun parseRelations ::
  "PrimitiveBlock \<Rightarrow> PB_Relation list \<Rightarrow> entity list \<Rightarrow> failure + entity list" where
  "parseRelations pb [] q = Inr q"
| "parseRelations pb (rel # relations) q =
     (let st = PB_stringtable pb;
          dateGranularity = int64_of_int32 (GetDateGranularity pb);
          id = PBR_id rel
      in case extractTags st (PBR_keys rel) (PBR_vals rel) of Inl e \<Rightarrow> Inl e
         | Inr tags \<Rightarrow>
           (case extractMembers st rel of Inl e \<Rightarrow> Inl e
            | Inr members \<Rightarrow>
              (let ts = info_Time (PBR_info rel) dateGranularity
               in parseRelations pb relations
                    (q @ [ERelation \<lparr>Relation_ID = id, Relation_Tags = tags,
                                      Relation_Members = members,
                                      Relation_Timestamp = ts\<rparr>]))))"

subsection \<open>Groups and blocks\<close>

definition parsePrimitiveGroup ::
  "PrimitiveBlock \<Rightarrow> PrimitiveGroup \<Rightarrow> entity list \<Rightarrow> failure + entity list" where
  "parsePrimitiveGroup pb pg q =
     (case parseNodes pb (PG_nodes pg) q of Inl e \<Rightarrow> Inl e | Inr q1 \<Rightarrow>
      case parseDenseNodes pb (PG_dense pg) q1 of Inl e \<Rightarrow> Inl e | Inr q2 \<Rightarrow>
      case parseWays pb (PG_ways pg) q2 of Inl e \<Rightarrow> Inl e | Inr q3 \<Rightarrow>
        parseRelations pb (PG_relations pg) q3)"

fun parsePrimitiveGroups ::
  "PrimitiveBlock \<Rightarrow> PrimitiveGroup list \<Rightarrow> entity list \<Rightarrow> failure + entity list" where
  "parsePrimitiveGroups pb [] q = Inr q"
| "parsePrimitiveGroups pb (pg # pgs) q =
     (case parsePrimitiveGroup pb pg q of Inl e \<Rightarrow> Inl e
      | Inr q' \<Rightarrow> parsePrimitiveGroups pb pgs q')"

definition parsePrimitiveBlock :: "PrimitiveBlock \<Rightarrow> entity list \<Rightarrow> failure + entity list" where
  "parsePrimitiveBlock pb q = parsePrimitiveGroups pb (PB_primitivegroup pb) q"

section \<open>Blobs\<close>

text \<open>
  The zlib and protobuf libraries are not part of the repository. Their functions are
  parameters of the model, collected in one record: \<open>zlib_NewReader\<close> is the check of the
  stream header by \<open>zlib.NewReader\<close> (its error, if any), \<open>zlib_ReadAll\<close> is what
  \<open>buf.ReadFrom(r)\<close> leaves in the buffer or the error it returns, and the four
  \<open>Unmarshal\<close> fields are \<open>proto.Unmarshal\<close> at the four message types. An error of a
  library is its message \<open>m\<close>, and reaches the decoder as \<open>LibraryError m\<close>.
\<close>

record extern =
  zlib_NewReader :: "byte list \<Rightarrow> string option"
  zlib_ReadAll :: "byte list \<Rightarrow> string + byte list"
  Unmarshal_BlobHeader :: "byte list \<Rightarrow> string + BlobHeader"
  Unmarshal_Blob :: "byte list \<Rightarrow> string + Blob"
  Unmarshal_HeaderBlock :: "byte list \<Rightarrow> string + HeaderBlock"
  Unmarshal_PrimitiveBlock :: "byte list \<Rightarrow> string + PrimitiveBlock"

definition bytes_MinRead :: int32 where
  "bytes_MinRead = 512"

definition getData :: "extern \<Rightarrow> Blob \<Rightarrow> failure + byte list" where
  "getData ext blob =
     (case Blob_raw blob of
        Some raw \<Rightarrow> Inr raw
      | None \<Rightarrow>
        (case Blob_zlib_data blob of
           Some z \<Rightarrow>
             (case zlib_NewReader ext z of
                Some err \<Rightarrow> Inl (Error (LibraryError err))
              | None \<Rightarrow>
                  \<comment> \<open>\<open>make([]byte, 0, blob.GetRawSize()+bytes.MinRead)\<close>: the sum is an
                      \<open>int32\<close>; a negative capacity panics\<close>
                  if sint (GetRawSize blob + bytes_MinRead) < 0
                  then Inl (Panic MakesliceOutOfRange)
                  else
                    (case zlib_ReadAll ext z of
                       Inl err \<Rightarrow> Inl (Error (LibraryError err))
                     | Inr buf \<Rightarrow>
                         if int (length buf) \<noteq> sint (GetRawSize blob)
                         then Inl (Error (RawSizeMismatch (length buf) (sint (GetRawSize blob))))
                         else Inr buf))
         | None \<Rightarrow> Inl (Error UnknownBlobData)))"

definition Decode :: "extern \<Rightarrow> Blob \<Rightarrow> failure + entity list" where
  \<comment> \<open>\<open>dataDecoder.Decode\<close>: the queue starts empty at every call\<close>
  "Decode ext blob =
     (case getData ext blob of Inl e \<Rightarrow> Inl e | Inr data \<Rightarrow>
      case Unmarshal_PrimitiveBlock ext data of Inl err \<Rightarrow> Inl (Error (LibraryError err))
      | Inr primitiveBlock \<Rightarrow> parsePrimitiveBlock primitiveBlock [])"

section \<open>The header block\<close>

definition parseCapabilities :: "string \<rightharpoonup> bool" where
  "parseCapabilities = [''OsmSchema-V0.6'' \<mapsto> True, ''DenseNodes'' \<mapsto> True]"

definition has_capability :: "string \<Rightarrow> bool" where
  \<comment> \<open>\<open>parseCapabilities[feature]\<close>: a missing key reads as \<open>false\<close>\<close>
  "has_capability feature = (case parseCapabilities feature of None \<Rightarrow> False | Some b \<Rightarrow> b)"

fun check_features :: "string list \<Rightarrow> go_error option" where
  "check_features [] = None"
| "check_features (feature # fs) =
     (if \<not> has_capability feature then Some (MissingCapability feature)
      else check_features fs)"

definition decodeOSMHeader :: "extern \<Rightarrow> Blob \<Rightarrow> failure option" where
  \<comment> \<open>\<open>None\<close> is the \<open>nil\<close> error\<close>
  "decodeOSMHeader ext blob =
     (case getData ext blob of Inl e \<Rightarrow> Some e | Inr data \<Rightarrow>
      case Unmarshal_HeaderBlock ext data of Inl err \<Rightarrow> Some (Error (LibraryError err))
      | Inr headerBlock \<Rightarrow>
          map_option Error (check_features (HB_required_features headerBlock)))"

section \<open>The reader\<close>

text \<open>
  The input \<open>dec.r\<close>: the bytes not yet read and the offset of the next byte.
\<close>

record reader =
  rd_rest :: "byte list"
  rd_pos :: nat

definition ReadFull :: "reader \<Rightarrow> nat \<Rightarrow> (go_error + byte list) \<times> reader" where
  \<comment> \<open>\<open>io.ReadFull(dec.r, buf)\<close> with \<open>len(buf) = n\<close>: \<open>io.EOF\<close> when no byte could be
      read, \<open>io.ErrUnexpectedEOF\<close> when some but not all; an empty buffer is filled at once\<close>
  "ReadFull r n =
     (if n \<le> length (rd_rest r)
      then (Inr (take n (rd_rest r)), \<lparr>rd_rest = drop n (rd_rest r), rd_pos = rd_pos r + n\<rparr>)
      else if rd_rest r = [] then (Inl EOF, r)
      else (Inl ErrUnexpectedEOF,
            \<lparr>rd_rest = [], rd_pos = rd_pos r + length (rd_rest r)\<rparr>))"

definition maxBlobHeaderSize :: int where
  "maxBlobHeaderSize = 64 * 1024"

definition maxBlobSize :: int where
  "maxBlobSize = 32 * 1024 * 1024"

definition BigEndian_Uint32 :: "byte list \<Rightarrow> uint32" where
  \<comment> \<open>\<open>binary.BigEndian.Uint32\<close> of a buffer of four bytes\<close>
  "BigEndian_Uint32 buf =
     or (or (or (push_bit 24 (ucast (buf ! 0))) (push_bit 16 (ucast (buf ! 1))))
            (push_bit 8 (ucast (buf ! 2))))
        (ucast (buf ! 3))"

definition readBlobHeaderSize :: "reader \<Rightarrow> (failure + uint32) \<times> reader" where
  "readBlobHeaderSize r =
     (case ReadFull r 4 of
        (Inl err, r') \<Rightarrow> (Inl (Error err), r')
      | (Inr buf, r') \<Rightarrow>
          (let sz = BigEndian_Uint32 buf
           in if uint sz \<ge> maxBlobHeaderSize then (Inl (Error BlobHeaderSizeTooBig), r')
              else (Inr sz, r')))"

definition readBlobHeader :: "extern \<Rightarrow> reader \<Rightarrow> uint32 \<Rightarrow> (failure + BlobHeader) \<times> reader" where
  "readBlobHeader ext r sz =
     (case ReadFull r (unat sz) of
        (Inl err, r') \<Rightarrow> (Inl (Error err), r')
      | (Inr buf, r') \<Rightarrow>
          (case Unmarshal_BlobHeader ext buf of
             Inl err \<Rightarrow> (Inl (Error (LibraryError err)), r')
           | Inr blobHeader \<Rightarrow>
               if sint (BH_datasize blobHeader) \<ge> maxBlobSize
               then (Inl (Error BlobSizeTooBig), r')
               else (Inr blobHeader, r')))"

definition readBlob :: "extern \<Rightarrow> reader \<Rightarrow> BlobHeader \<Rightarrow> (failure + Blob) \<times> reader" where
  "readBlob ext r blobHeader =
     \<comment> \<open>\<open>make([]byte, blobHeader.GetDatasize())\<close> panics on a negative length\<close>
     (if sint (BH_datasize blobHeader) < 0 then (Inl (Panic MakesliceOutOfRange), r)
      else
        (case ReadFull r (nat (sint (BH_datasize blobHeader))) of
           (Inl err, r') \<Rightarrow> (Inl (Error err), r')
         | (Inr buf, r') \<Rightarrow>
             (case Unmarshal_Blob ext buf of
                Inl err \<Rightarrow> (Inl (Error (LibraryError err)), r')
              | Inr blob \<Rightarrow> (Inr blob, r'))))"

definition readFileBlock ::
  "extern \<Rightarrow> reader \<Rightarrow> (failure + (BlobHeader \<times> Blob)) \<times> nat \<times> reader" where
  \<comment> \<open>the result or failure, the offset \<open>pos\<close> at which the block began, and the reader
      afterwards\<close>
  "readFileBlock ext r =
     (let pos = rd_pos r
      in case readBlobHeaderSize r of
           (Inl e, r1) \<Rightarrow> (Inl e, pos, r1)
         | (Inr blobHeaderSize, r1) \<Rightarrow>
             (case readBlobHeader ext r1 blobHeaderSize of
                (Inl e, r2) \<Rightarrow> (Inl e, pos, r2)
              | (Inr blobHeader, r2) \<Rightarrow>
                  (case readBlob ext r2 blobHeader of
                     (Inl e, r3) \<Rightarrow> (Inl e, pos, r3)
                   | (Inr blob, r3) \<Rightarrow> (Inr (blobHeader, blob), pos, r3))))"

section \<open>Start: the header check\<close>

definition Start_header :: "extern \<Rightarrow> reader \<Rightarrow> failure option \<times> reader" where
  \<comment> \<open>the part of \<open>Start\<close> before the goroutines are started: the error it returns
      (\<open>None\<close> is \<open>nil\<close>) and the reader afterwards\<close>
  "Start_header ext r =
     (case readFileBlock ext r of
        (Inl e, position, r') \<Rightarrow> (Some e, r')
      | (Inr (blobHeader, blob), position, r') \<Rightarrow>
          (if BH_type blobHeader = ''OSMHeader'' then (decodeOSMHeader ext blob, r')
           else (Some (Error (UnexpectedFirstFileblock (BH_type blobHeader))), r')))"

section \<open>The pipeline of goroutines\<close>

text \<open>
  A value of the Go type \<open>pair\<close>: the payload \<open>i\<close> (\<open>None\<close> is the \<open>nil\<close> interface), the file
  position \<open>p\<close> and the error \<open>e\<close> (\<open>None\<close> is \<open>nil\<close>).
\<close>

type_synonym 'a pair = "'a option \<times> nat \<times> go_error option"

definition pair_e :: "'a pair \<Rightarrow> go_error option" where
  "pair_e p = snd (snd p)"

text \<open>
  The goroutines that \<open>Start\<close> starts, each with the places at which it can be between two
  steps.

  The reader goroutine: \<open>RRead i\<close> is the top of its loop with \<open>inputIndex = i\<close>;
  \<open>RSend i p\<close> is the send of \<open>p\<close> on \<open>dec.inputs[i]\<close>; \<open>RClose k\<close> is the loop that closes
  the inputs, those below \<open>k\<close> being closed; \<open>RDone\<close> is after its \<open>return\<close>.
\<close>

datatype rstate = RRead nat | RSend nat "Blob pair" | RClose nat | RDone

text \<open>
  A data decoder goroutine: \<open>WIdle\<close> is the receive of \<open>for p := range input\<close>; \<open>WBusy p\<close> is
  the loop body before its send; \<open>WSend q\<close> is the send of \<open>q\<close> on \<open>output\<close>; \<open>WDone\<close> is
  after \<open>close(output)\<close>.
\<close>

datatype wstate = WIdle | WBusy "Blob pair" | WSend "entity list pair" | WDone

text \<open>
  The serializer goroutine: \<open>SRecv j\<close> is the receive from \<open>dec.outputs[j]\<close>;
  \<open>SEmit j os pos e\<close> is the loop over the received objects, \<open>os\<close> being those still to send,
  \<open>pos\<close> and \<open>e\<close> the position and error of the received pair and \<open>j\<close> the next value of
  \<open>outputIndex\<close>; \<open>SClose\<close> is \<open>close(dec.serializer)\<close>; \<open>SDone\<close> is after its \<open>return\<close>.
\<close>

datatype sstate = SRecv nat | SEmit nat "entity list" nat "go_error option" | SClose | SDone

text \<open>
  The state of the pipeline: the input file, the three kinds of goroutines, the buffered
  channel \<open>dec.serializer\<close> with its \<open>closed\<close> flag, the results that the calls of
  \<open>Decode\<close> have returned so far, and the panic that has ended the program, if any.
  The channels \<open>input\<close> and \<open>output\<close> are unbuffered: a send and its receive are one step.
\<close>

record pipeline =
  p_reader :: reader
  p_rst :: rstate
  p_workers :: "wstate list"
  p_sst :: sstate
  p_serializer :: "entity pair list"
  p_closed :: bool
  p_decoded :: "entity pair list"
  p_panic :: "go_panic option"

definition serializer_cap :: nat where
  \<comment> \<open>\<open>make(chan pair, 8000)\<close>\<close>
  "serializer_cap = 8000"

definition reader_read :: "extern \<Rightarrow> nat \<Rightarrow> pipeline \<Rightarrow> pipeline" where
  \<comment> \<open>one pass of the reader's loop up to its send\<close>
  "reader_read ext i s =
     (case readFileBlock ext (p_reader s) of
        (Inl (Panic pn), position, r') \<Rightarrow> s\<lparr>p_panic := Some pn\<rparr>
      | (Inl (Error err), position, r') \<Rightarrow>
          s\<lparr>p_reader := r', p_rst := RSend i (None, position, Some err)\<rparr>
      | (Inr (blobHeader, blob), position, r') \<Rightarrow>
          if BH_type blobHeader \<noteq> ''OSMData''
          then s\<lparr>p_reader := r',
                 p_rst := RSend i (None, position,
                            Some (UnexpectedFileblock (BH_type blobHeader)))\<rparr>
          else s\<lparr>p_reader := r', p_rst := RSend i (Some blob, position, None)\<rparr>)"

definition worker_body :: "extern \<Rightarrow> Blob pair \<Rightarrow> go_panic + entity list pair" where
  \<comment> \<open>the body of a data decoder's loop: the pair it sends, or the panic. When \<open>Decode\<close>
      returns an error its first result is a \<open>nil\<close> slice, which is no \<open>nil\<close> interface:
      the payload is the empty list. The type assertion of \<open>p.i\<close> to a blob panics on
      \<open>nil\<close>.\<close>
  "worker_body ext p =
     (case p of
        (i, pos, Some e) \<Rightarrow> Inr (None, pos, Some e)
      | (None, pos, None) \<Rightarrow> Inl (PanicMsg ''interface conversion'')
      | (Some blob, pos, None) \<Rightarrow>
          (case Decode ext blob of
             Inl (Panic pn) \<Rightarrow> Inl pn
           | Inl (Error err) \<Rightarrow> Inr (Some [], pos, Some err)
           | Inr objects \<Rightarrow> Inr (Some objects, pos, None)))"

definition input_closed :: "pipeline \<Rightarrow> nat \<Rightarrow> bool" where
  "input_closed s w = (case p_rst s of RClose k \<Rightarrow> w < k | RDone \<Rightarrow> True | _ \<Rightarrow> False)"

definition payload :: "entity list option \<Rightarrow> entity list" where
  \<comment> \<open>\<open>if p.i != nil { for _, o := range p.i.([]interface{}) ... }\<close>\<close>
  "payload i = (case i of None \<Rightarrow> [] | Some objects \<Rightarrow> objects)"

text \<open>
  One step of the program after \<open>Start\<close> has returned, by one goroutine or by a caller of
  \<open>Decoder.Decode\<close>; \<open>n\<close> is the number of data decoders. No step is taken after a panic.
  \<^item> \<open>read\<close>: the reader reads the next file block (\<open>readFileBlock\<close> and the check of
    the block type);
  \<^item> \<open>send\<close>: the reader sends its pair on \<open>dec.inputs[i]\<close> and the data decoder \<open>i\<close>
    receives it; after a pair without error the reader loops with the next index, after
    a pair with an error it goes on to close the inputs;
  \<^item> \<open>close_input\<close>: the reader closes the next input, or returns after the last;
  \<^item> \<open>work\<close>: a data decoder runs the body of its loop (\<open>worker_body\<close>);
  \<^item> \<open>worker_exit\<close>: a data decoder finds its input closed and closes its output;
  \<^item> \<open>recv\<close>: a data decoder sends its pair on \<open>output\<close> and the serializer, which
    receives from \<open>dec.outputs[j]\<close>, takes it;
  \<^item> \<open>recv_closed\<close>: the serializer receives the zero pair from a closed output and goes
    to the next output;
  \<^item> \<open>emit\<close>, \<open>emit_done\<close>, \<open>emit_error\<close>: the serializer sends the next object of the
    received pair on \<open>dec.serializer\<close> (when the buffer has room), finds no error after the
    last, or sends the error;
  \<^item> \<open>close_serializer\<close>: the serializer closes \<open>dec.serializer\<close> and returns;
  \<^item> \<open>decode\<close>, \<open>decode_eof\<close>: a call of \<open>Decoder.Decode\<close> receives the next pair from
    \<open>dec.serializer\<close>, or finds the channel closed and empty and returns \<open>io.EOF\<close> with
    the position of the zero pair.
\<close>

inductive step :: "extern \<Rightarrow> nat \<Rightarrow> pipeline \<Rightarrow> pipeline \<Rightarrow> bool" for ext n where
  read:
    "p_panic s = None \<Longrightarrow> p_rst s = RRead i \<Longrightarrow> step ext n s (reader_read ext i s)"
| send:
    "p_panic s = None \<Longrightarrow> p_rst s = RSend i p \<Longrightarrow> i < length (p_workers s) \<Longrightarrow>
     p_workers s ! i = WIdle \<Longrightarrow>
     step ext n s (s\<lparr>p_workers := (p_workers s)[i := WBusy p],
                     p_rst := (if pair_e p = None then RRead ((i + 1) mod n) else RClose 0)\<rparr>)"
| close_input:
    "p_panic s = None \<Longrightarrow> p_rst s = RClose k \<Longrightarrow>
     step ext n s (s\<lparr>p_rst := (if k < n then RClose (Suc k) else RDone)\<rparr>)"
| work:
    "p_panic s = None \<Longrightarrow> w < length (p_workers s) \<Longrightarrow> p_workers s ! w = WBusy p \<Longrightarrow>
     step ext n s (case worker_body ext p of
                     Inl pn \<Rightarrow> s\<lparr>p_panic := Some pn\<rparr>
                   | Inr q \<Rightarrow> s\<lparr>p_workers := (p_workers s)[w := WSend q]\<rparr>)"
| worker_exit:
    "p_panic s = None \<Longrightarrow> w < length (p_workers s) \<Longrightarrow> p_workers s ! w = WIdle \<Longrightarrow>
     input_closed s w \<Longrightarrow>
     step ext n s (s\<lparr>p_workers := (p_workers s)[w := WDone]\<rparr>)"
| recv:
    "p_panic s = None \<Longrightarrow> p_sst s = SRecv j \<Longrightarrow> j < length (p_workers s) \<Longrightarrow>
     p_workers s ! j = WSend (i, pos, e) \<Longrightarrow>
     step ext n s (s\<lparr>p_workers := (p_workers s)[j := WIdle],
                     p_sst := SEmit ((j + 1) mod n) (payload i) pos e\<rparr>)"
| recv_closed:
    "p_panic s = None \<Longrightarrow> p_sst s = SRecv j \<Longrightarrow> j < length (p_workers s) \<Longrightarrow>
     p_workers s ! j = WDone \<Longrightarrow>
     step ext n s (s\<lparr>p_sst := SRecv ((j + 1) mod n)\<rparr>)"
| emit:
    "p_panic s = None \<Longrightarrow> p_sst s = SEmit j (obj # objs) pos e \<Longrightarrow>
     length (p_serializer s) < serializer_cap \<Longrightarrow>
     step ext n s (s\<lparr>p_serializer := p_serializer s @ [(Some obj, pos, None)],
                     p_sst := SEmit j objs pos e\<rparr>)"
| emit_done:
    "p_panic s = None \<Longrightarrow> p_sst s = SEmit j [] pos None \<Longrightarrow>
     step ext n s (s\<lparr>p_sst := SRecv j\<rparr>)"
| emit_error:
    "p_panic s = None \<Longrightarrow> p_sst s = SEmit j [] pos (Some err) \<Longrightarrow>
     length (p_serializer s) < serializer_cap \<Longrightarrow>
     step ext n s (s\<lparr>p_serializer := p_serializer s @ [(None, pos, Some err)],
                     p_sst := SClose\<rparr>)"
| close_serializer:
    "p_panic s = None \<Longrightarrow> p_sst s = SClose \<Longrightarrow>
     step ext n s (s\<lparr>p_closed := True, p_sst := SDone\<rparr>)"
| decode:
    "p_panic s = None \<Longrightarrow> p_serializer s = x # xs \<Longrightarrow>
     step ext n s (s\<lparr>p_serializer := xs, p_decoded := p_decoded s @ [x]\<rparr>)"
| decode_eof:
    "p_panic s = None \<Longrightarrow> p_serializer s = [] \<Longrightarrow> p_closed s \<Longrightarrow>
     step ext n s (s\<lparr>p_decoded := p_decoded s @ [(None, 0, Some EOF)]\<rparr>)"

definition init :: "nat \<Rightarrow> reader \<Rightarrow> pipeline" where
  "init n r =
     \<lparr>p_reader = r, p_rst = RRead 0, p_workers = replicate n WIdle, p_sst = SRecv 0,
      p_serializer = [], p_closed = False, p_decoded = [], p_panic = None\<rparr>"

definition worker_count :: "int \<Rightarrow> nat" where
  \<comment> \<open>\<open>if n < 1 { n = 1 }\<close>\<close>
  "worker_count n = (if n < 1 then 1 else nat n)"

definition Start :: "extern \<Rightarrow> reader \<Rightarrow> int \<Rightarrow> failure + pipeline" where
  \<comment> \<open>the error that \<open>Start\<close> returns, or the pipeline it has started\<close>
  "Start ext r n =
     (case Start_header ext r of
        (Some err, r') \<Rightarrow> Inl err
      | (None, r') \<Rightarrow> Inr (init (worker_count n) r'))"

definition reachable :: "extern \<Rightarrow> nat \<Rightarrow> reader \<Rightarrow> pipeline \<Rightarrow> bool" where
  "reachable ext n r s = rtranclp (step ext n) (init n r) s"

section \<open>Definitions used to state the properties\<close>

text \<open>
  The prefix sum \<open>xs[0] + ... + xs[i]\<close> of a delta-encoded array, from a base of 0, in
  \<open>int64\<close> arithmetic.
\<close>

definition prefix_sum :: "int64 list \<Rightarrow> nat \<Rightarrow> int64" where
  "prefix_sum xs i = sum_list (take (Suc i) xs)"

text \<open>
  The reads of \<open>extractMembers\<close> at position \<open>i\<close> are in range: \<open>types[i]\<close>,
  \<open>roleIDs[i]\<close> and \<open>stringTable[roleIDs[i]]\<close>.
\<close>

definition role_ok :: "string list \<Rightarrow> Relation_MemberType list \<Rightarrow> int32 list \<Rightarrow> nat \<Rightarrow> bool" where
  "role_ok st types roleIDs i =
     (i < length types \<and> i < length roleIDs \<and>
      0 \<le> sint (roleIDs ! i) \<and> sint (roleIDs ! i) < int (length st))"

text \<open>
  All reads of \<open>extractMembers\<close> on a relation are in range.
\<close>

definition members_wf :: "string list \<Rightarrow> PB_Relation \<Rightarrow> bool" where
  "members_wf st rel =
     (\<forall>i<length (PBR_memids rel). role_ok st (PBR_types rel) (PBR_roles_sid rel) i)"

text \<open>
  The member at position \<open>i\<close> as the spec describes it.
\<close>

definition member_at :: "string list \<Rightarrow> PB_Relation \<Rightarrow> nat \<Rightarrow> Member" where
  "member_at st rel i =
     \<lparr>Member_ID = prefix_sum (PBR_memids rel) i,
      Member_Type = memType_of (PBR_types rel ! i),
      Member_Role = st ! nat (sint (PBR_roles_sid rel ! i))\<rparr>"

text \<open>
  All reads of \<open>extractTags\<close> are in range.
\<close>

definition tags_wf :: "string list \<Rightarrow> uint32 list \<Rightarrow> uint32 list \<Rightarrow> bool" where
  "tags_wf st keys vals =
     (\<forall>i<length keys. unat (keys ! i) < length st \<and> i < length vals \<and>
                       unat (vals ! i) < length st)"

text \<open>
  The tags of \<open>n\<close> successive calls of \<open>tagUnpacker.next\<close> from cursor \<open>c\<close>, or the panic of
  the first call that fails.
\<close>

fun tagUnpacker_run :: "string list \<Rightarrow> int32 list \<Rightarrow> nat \<Rightarrow> nat \<Rightarrow> failure + tags list" where
  "tagUnpacker_run st kvs c 0 = Inr []"
| "tagUnpacker_run st kvs c (Suc n) =
     (case tagUnpacker_next st kvs c of Inl e \<Rightarrow> Inl e
      | Inr (t, c') \<Rightarrow>
          (case tagUnpacker_run st kvs c' n of Inl e \<Rightarrow> Inl e | Inr ts \<Rightarrow> Inr (t # ts)))"

text \<open>
  The node at position \<open>i\<close> of a DenseNodes group as the spec describes it, with the tags
  \<open>t\<close>. The two granularities are \<open>int32\<close> values; \<open>word_of_int (sint g)\<close> is the \<open>int64\<close> of
  the same signed value.
\<close>

definition dense_node :: "PrimitiveBlock \<Rightarrow> DenseNodes \<Rightarrow> tags \<Rightarrow> nat \<Rightarrow> Node" where
  "dense_node pb dn t i =
     \<lparr>Node_ID = prefix_sum (DN_id dn) i,
      Node_Lat = Times1em9 (GetLatOffset pb +
                   word_of_int (sint (GetGranularity pb)) * prefix_sum (DN_lat dn) i),
      Node_Lon = Times1em9 (GetLonOffset pb +
                   word_of_int (sint (GetGranularity pb)) * prefix_sum (DN_lon dn) i),
      Node_Tags = t,
      Node_Timestamp =
        (case dense_timestamps (Some dn) of None \<Rightarrow> ZeroTime
         | Some ts \<Rightarrow> UnixNanoUTC (prefix_sum ts i *
                        word_of_int (sint (GetDateGranularity pb)) * 1000000))\<rparr>"

section \<open>Inputs of the examples\<close>

text \<open>
  The blocks, nodes, ways and relations of the spec's examples.
\<close>

definition example_block :: PrimitiveBlock where
  "example_block =
     \<lparr>PB_stringtable = ['''', ''highway'', ''primary'', ''name'', ''A1''],
      PB_primitivegroup = [], PB_granularity = None, PB_lat_offset = None,
      PB_lon_offset = None, PB_date_granularity = None\<rparr>"

definition example_dense :: DenseNodes where
  "example_dense =
     \<lparr>DN_id = [10, 5, - 3], DN_denseinfo = Some \<lparr>DI_timestamp = Some [1, 1, 1]\<rparr>,
      DN_lat = [1, 2, 3], DN_lon = [4, 5, 6], DN_keys_vals = [1, 2, 0, 0, 3, 4, 0]\<rparr>"

text \<open>
  A block whose granularities and longitude offset are negative, and three more dense
  groups: one whose \<open>keys_vals\<close> refers to index 9 of a string table of five strings, one
  whose \<open>keys_vals\<close> ends after a key, and one without tags.
\<close>

definition negative_block :: PrimitiveBlock where
  "negative_block =
     \<lparr>PB_stringtable = [''''], PB_primitivegroup = [], PB_granularity = Some (- 100),
      PB_lat_offset = Some 7, PB_lon_offset = Some (- 7), PB_date_granularity = Some (- 1)\<rparr>"

definition dense_bad_keys_vals :: DenseNodes where
  "dense_bad_keys_vals =
     \<lparr>DN_id = [10, 5, - 3], DN_denseinfo = Some \<lparr>DI_timestamp = Some [1, 1, 1]\<rparr>,
      DN_lat = [1, 2, 3], DN_lon = [4, 5, 6], DN_keys_vals = [9, 9, 0]\<rparr>"

definition dense_key_without_value :: DenseNodes where
  "dense_key_without_value =
     \<lparr>DN_id = [10, 5, - 3], DN_denseinfo = None,
      DN_lat = [1, 2, 3], DN_lon = [4, 5, 6], DN_keys_vals = [1]\<rparr>"

definition dense_plain :: DenseNodes where
  "dense_plain =
     \<lparr>DN_id = [1, 1], DN_denseinfo = Some \<lparr>DI_timestamp = Some [2, 1]\<rparr>,
      DN_lat = [1, - 3], DN_lon = [- 1, 2], DN_keys_vals = []\<rparr>"

text \<open>
  Instances of the library parameters on which the model can be run: zlib streams that
  are stored uncompressed, and unmarshalling that returns fixed messages.
\<close>

definition sample_extern :: "BlobHeader \<Rightarrow> HeaderBlock \<Rightarrow> PrimitiveBlock \<Rightarrow> extern" where
  "sample_extern bh hb pb =
     \<lparr>zlib_NewReader = (\<lambda>z. None),
      zlib_ReadAll = (\<lambda>z. Inr z),
      Unmarshal_BlobHeader = (\<lambda>b. Inr bh),
      Unmarshal_Blob = (\<lambda>b. Inr \<lparr>Blob_raw = Some b, Blob_raw_size = None,
                                    Blob_zlib_data = None\<rparr>),
      Unmarshal_HeaderBlock = (\<lambda>b. Inr hb),
      Unmarshal_PrimitiveBlock = (\<lambda>b. Inr pb)\<rparr>"

definition example_node :: PB_Node where
  "example_node = \<lparr>PBN_id = 42, PBN_keys = [], PBN_vals = [], PBN_info = None,
                    PBN_lat = 450000000, PBN_lon = 90000000\<rparr>"

definition example_way :: PB_Way where
  "example_way = \<lparr>PBW_id = 7, PBW_keys = [], PBW_vals = [], PBW_info = None,
                   PBW_refs = [100, 1, 1, - 1]\<rparr>"

definition example_relation :: PB_Relation where
  "example_relation = \<lparr>PBR_id = 9, PBR_keys = [], PBR_vals = [], PBR_info = None,
                        PBR_roles_sid = [1, 2, 1], PBR_memids = [5, 2, - 3],
                        PBR_types = [Relation_NODE, Relation_WAY, Relation_RELATION]\<rparr>"




definition group_of ::
  "PB_Node list \<Rightarrow> PB_Way list \<Rightarrow> PB_Relation list \<Rightarrow> PrimitiveGroup" where
  "group_of ns ws rs = \<lparr>PG_nodes = ns, PG_dense = None, PG_ways = ws, PG_relations = rs\<rparr>"

definition raw_blob :: Blob where
  "raw_blob = \<lparr>Blob_raw = Some [], Blob_raw_size = None, Blob_zlib_data = None\<rparr>"

definition data_header :: BlobHeader where
  "data_header = \<lparr>BH_type = ''OSMData'', BH_datasize = 0\<rparr>"


definition block_with :: "PrimitiveBlock \<Rightarrow> PrimitiveGroup list \<Rightarrow> PrimitiveBlock" where
  "block_with pb pgs = pb\<lparr>PB_primitivegroup := pgs\<rparr>"

definition header_reader :: reader where
  "header_reader = \<lparr>rd_rest = [0, 0, 0, 0], rd_pos = 0\<rparr>"

definition header_of :: "string \<Rightarrow> int32 \<Rightarrow> BlobHeader" where
  "header_of t n = \<lparr>BH_type = t, BH_datasize = n\<rparr>"

definition features :: "string list \<Rightarrow> HeaderBlock" where
  "features fs = \<lparr>HB_required_features = fs\<rparr>"

section \<open>The order of the file, and what holds in every state of the pipeline\<close>

text \<open>
  The pairs that the reader goroutine sends, in the order of the file, up to and with the
  first pair that carries an error, and the panic that ends the reading instead, if any.
\<close>

function reader_pairs :: "extern \<Rightarrow> reader \<Rightarrow> Blob pair list \<times> go_panic option" where
  "reader_pairs ext r =
     (case readFileBlock ext r of
        (Inl (Panic pn), position, r') \<Rightarrow> ([], Some pn)
      | (Inl (Error err), position, r') \<Rightarrow> ([(None, position, Some err)], None)
      | (Inr (blobHeader, blob), position, r') \<Rightarrow>
          if BH_type blobHeader \<noteq> ''OSMData''
          then ([(None, position, Some (UnexpectedFileblock (BH_type blobHeader)))], None)
          else (case reader_pairs ext r' of
                  (ps, c) \<Rightarrow> ((Some blob, position, None) # ps, c)))"
  by pat_completeness auto
termination
proof (relation "measure (\<lambda>(ext, r). length (rd_rest r))", goal_cases)
  case 1
  show ?case by simp
next
  case (2 ext r x y b bh blob pos r')
  then have eq: "readFileBlock ext r = (Inr (bh, blob), pos, r')" by simp
  from eq obtain sz r1 where r1: "readBlobHeaderSize r = (Inr sz, r1)"
    by (auto simp: readFileBlock_def Let_def split: prod.splits sum.splits)
  from eq r1 obtain r2 where r2: "readBlobHeader ext r1 sz = (Inr bh, r2)"
    by (auto simp: readFileBlock_def Let_def split: prod.splits sum.splits)
  from eq r1 r2 have r3: "readBlob ext r2 bh = (Inr blob, r')"
    by (auto simp: readFileBlock_def Let_def split: prod.splits sum.splits)
  from r1 have "length (rd_rest r1) < length (rd_rest r)"
    by (auto simp: readBlobHeaderSize_def ReadFull_def Let_def split: if_splits)
  moreover from r2 have "length (rd_rest r2) \<le> length (rd_rest r1)"
    by (auto simp: readBlobHeader_def ReadFull_def split: sum.splits if_splits)
  moreover from r3 have "length (rd_rest r') \<le> length (rd_rest r2)"
    by (auto simp: readBlob_def ReadFull_def split: sum.splits if_splits)
  ultimately show ?case by simp
qed

text \<open>
  What the serializer sends for one received pair: the objects of its payload, each with
  the pair's position, and then its error, if any.
\<close>

definition emitted_of :: "entity list pair \<Rightarrow> entity pair list" where
  "emitted_of q =
     (case q of (i, pos, e) \<Rightarrow>
        map (\<lambda>obj. (Some obj, pos, None)) (payload i) @
        (case e of None \<Rightarrow> [] | Some err \<Rightarrow> [(None, pos, Some err)]))"

text \<open>
  The sequence of the file: the pairs of the reader taken one by one in the order of the
  file, each decoded and emitted before the next is looked at; it ends after the first
  error, or where a block panics.
\<close>

fun file_order :: "extern \<Rightarrow> Blob pair list \<Rightarrow> entity pair list" where
  "file_order ext [] = []"
| "file_order ext (p # ps) =
     (case worker_body ext p of
        Inl pn \<Rightarrow> []
      | Inr q \<Rightarrow> emitted_of q @ (if pair_e q = None then file_order ext ps else []))"

definition expected :: "extern \<Rightarrow> reader \<Rightarrow> entity pair list" where
  "expected ext r = file_order ext (fst (reader_pairs ext r))"

definition eof_result :: "entity pair" where
  \<comment> \<open>what \<open>Decode\<close> returns on the closed channel: \<open>nil, p.p, io.EOF\<close> with the zero pair\<close>
  "eof_result = (None, 0, Some EOF)"

text \<open>
  The invariants of the pipeline are stated against the list \<open>P\<close> of the reader's pairs.
  \<open>K\<close> is the number of pairs the reader has sent and \<open>J\<close> the number the serializer has
  received; the pairs from \<open>J\<close> up to \<open>K\<close> are with the workers, pair \<open>k\<close> with worker
  \<open>k mod n\<close>.
\<close>

fun holds :: "extern \<Rightarrow> wstate \<Rightarrow> Blob pair \<Rightarrow> bool" where
  "holds ext (WBusy p) q = (p = q)"
| "holds ext (WSend out) q = (worker_body ext q = Inr out)"
| "holds ext WIdle q = False"
| "holds ext WDone q = False"

text \<open>
  What the serializer has sent once it has emitted the first \<open>J\<close> pairs.
\<close>

definition flat :: "extern \<Rightarrow> Blob pair list \<Rightarrow> nat \<Rightarrow> entity pair list" where
  "flat ext P J =
     concat (map (\<lambda>p. case worker_body ext p of Inl pn \<Rightarrow> [] | Inr q \<Rightarrow> emitted_of q)
                 (take J P))"

definition ok_upto :: "extern \<Rightarrow> Blob pair list \<Rightarrow> nat \<Rightarrow> bool" where
  "ok_upto ext P J = (\<forall>k<J. \<exists>q. worker_body ext (P ! k) = Inr q \<and> pair_e q = None)"

definition failed_at :: "extern \<Rightarrow> Blob pair list \<Rightarrow> nat \<Rightarrow> bool" where
  "failed_at ext P J = (\<exists>q e. worker_body ext (P ! J) = Inr q \<and> pair_e q = Some e)"

definition inv_reader ::
  "extern \<Rightarrow> nat \<Rightarrow> Blob pair list \<Rightarrow> go_panic option \<Rightarrow> nat \<Rightarrow> pipeline \<Rightarrow> bool" where
  "inv_reader ext n P c K s =
     ((\<forall>i. p_rst s = RRead i \<longrightarrow>
          i = K mod n \<and> reader_pairs ext (p_reader s) = (drop K P, c) \<and>
          (\<forall>k<K. pair_e (P ! k) = None)) \<and>
      (\<forall>i p. p_rst s = RSend i p \<longrightarrow>
          i = K mod n \<and> K < length P \<and> p = P ! K \<and> (\<forall>k<K. pair_e (P ! k) = None) \<and>
          (pair_e p = None \<longrightarrow> reader_pairs ext (p_reader s) = (drop (Suc K) P, c)) \<and>
          (pair_e p \<noteq> None \<longrightarrow> Suc K = length P)) \<and>
      (p_rst s = RDone \<or> (\<exists>k. p_rst s = RClose k) \<longrightarrow>
          K = length P \<and> 0 < K \<and> pair_e (P ! (K - 1)) \<noteq> None))"

definition inv_workers ::
  "extern \<Rightarrow> nat \<Rightarrow> Blob pair list \<Rightarrow> nat \<Rightarrow> nat \<Rightarrow> pipeline \<Rightarrow> bool" where
  "inv_workers ext n P K J s =
     (length (p_workers s) = n \<and> J \<le> K \<and> K \<le> J + n \<and> K \<le> length P \<and>
      (\<forall>k. J \<le> k \<and> k < K \<longrightarrow> holds ext (p_workers s ! (k mod n)) (P ! k)) \<and>
      (\<forall>w<n. (\<forall>k. J \<le> k \<and> k < K \<longrightarrow> k mod n \<noteq> w) \<longrightarrow>
          p_workers s ! w = WIdle \<or> p_workers s ! w = WDone) \<and>
      (\<forall>w<n. p_workers s ! w = WDone \<longrightarrow> input_closed s w))"

definition inv_ser :: "extern \<Rightarrow> nat \<Rightarrow> Blob pair list \<Rightarrow> nat \<Rightarrow> pipeline \<Rightarrow> bool" where
  "inv_ser ext n P J s =
     ((\<forall>j. p_sst s = SRecv j \<longrightarrow>
          j = J mod n \<and> ok_upto ext P J \<and>
          p_decoded s @ p_serializer s = flat ext P J \<and> \<not> p_closed s) \<and>
      (\<forall>j objs pos e. p_sst s = SEmit j objs pos e \<longrightarrow>
          0 < J \<and> j = J mod n \<and> ok_upto ext P (J - 1) \<and>
          (\<exists>i. worker_body ext (P ! (J - 1)) = Inr (i, pos, e)) \<and>
          p_decoded s @ p_serializer s @ emitted_of (Some objs, pos, e) = flat ext P J \<and>
          \<not> p_closed s) \<and>
      (p_sst s = SClose \<longrightarrow>
          0 < J \<and> ok_upto ext P (J - 1) \<and> failed_at ext P (J - 1) \<and>
          p_decoded s @ p_serializer s = flat ext P J \<and> \<not> p_closed s) \<and>
      (p_sst s = SDone \<longrightarrow>
          0 < J \<and> ok_upto ext P (J - 1) \<and> failed_at ext P (J - 1) \<and> p_closed s \<and>
          (\<exists>m. p_decoded s @ p_serializer s = flat ext P J @ replicate m eof_result \<and>
               (0 < m \<longrightarrow> p_serializer s = []))))"

definition inv_at ::
  "extern \<Rightarrow> nat \<Rightarrow> Blob pair list \<Rightarrow> go_panic option \<Rightarrow> nat \<Rightarrow> nat \<Rightarrow> pipeline \<Rightarrow> bool" where
  "inv_at ext n P c K J s =
     (inv_reader ext n P c K s \<and> inv_workers ext n P K J s \<and> inv_ser ext n P J s)"

definition pipeline_inv :: "extern \<Rightarrow> nat \<Rightarrow> reader \<Rightarrow> pipeline \<Rightarrow> bool" where
  "pipeline_inv ext n r s =
     (\<exists>K J. inv_at ext n (fst (reader_pairs ext r)) (snd (reader_pairs ext r)) K J s)"

text \<open>
  A bound on the number of steps that the goroutines can still take without a call of
  \<open>Decode\<close>: every such step lowers it.
\<close>

definition scost :: "entity list pair \<Rightarrow> nat" where
  "scost q = length (payload (fst q)) + (if pair_e q = None then 1 else 2)"

definition pcost :: "extern \<Rightarrow> Blob pair \<Rightarrow> nat" where
  "pcost ext p = (case worker_body ext p of Inl pn \<Rightarrow> 0 | Inr q \<Rightarrow> scost q) + 2"

fun wcost :: "extern \<Rightarrow> wstate \<Rightarrow> nat" where
  "wcost ext WIdle = 1"
| "wcost ext (WBusy p) = pcost ext p + 1"
| "wcost ext (WSend q) = scost q + 2"
| "wcost ext WDone = 0"

fun ser_cost :: "sstate \<Rightarrow> nat" where
  "ser_cost (SRecv j) = 0"
| "ser_cost (SEmit j objs pos e) = length objs + (if e = None then 1 else 2)"
| "ser_cost SClose = 1"
| "ser_cost SDone = 0"

definition future_cost :: "extern \<Rightarrow> reader \<Rightarrow> nat" where
  "future_cost ext r = sum_list (map (\<lambda>p. pcost ext p + 2) (fst (reader_pairs ext r)))"

fun rcost :: "extern \<Rightarrow> nat \<Rightarrow> reader \<Rightarrow> rstate \<Rightarrow> nat" where
  "rcost ext n r (RRead i) = future_cost ext r + n + 1"
| "rcost ext n r (RSend i p) =
     pcost ext p + (if pair_e p = None then future_cost ext r else 0) + n + 2"
| "rcost ext n r (RClose k) = Suc (n - k)"
| "rcost ext n r RDone = 0"

definition cost :: "extern \<Rightarrow> nat \<Rightarrow> pipeline \<Rightarrow> nat" where
  "cost ext n s =
     rcost ext n (p_reader s) (p_rst s) + sum_list (map (wcost ext) (p_workers s)) +
     ser_cost (p_sst s)"

text \<open>
  No block of the file makes the reader or a data decoder panic.
\<close>

definition panic_free :: "extern \<Rightarrow> reader \<Rightarrow> bool" where
  "panic_free ext r =
     (snd (reader_pairs ext r) = None \<and>
      (\<forall>p\<in>set (fst (reader_pairs ext r)). \<exists>q. worker_body ext p = Inr q))"




section \<open>A file for the pipeline\<close>

text \<open>
  A file of a header block and one data block, and library parameters that read the
  block type from the header bytes.
\<close>

definition sample_file_extern :: "PrimitiveBlock \<Rightarrow> extern" where
  "sample_file_extern pb =
     \<lparr>zlib_NewReader = (\<lambda>z. None),
      zlib_ReadAll = (\<lambda>z. Inr z),
      Unmarshal_BlobHeader =
        (\<lambda>b. Inr \<lparr>BH_type = (if b = [] then ''OSMHeader'' else ''OSMData''), BH_datasize = 0\<rparr>),
      Unmarshal_Blob = (\<lambda>b. Inr \<lparr>Blob_raw = Some b, Blob_raw_size = None,
                                    Blob_zlib_data = None\<rparr>),
      Unmarshal_HeaderBlock =
        (\<lambda>b. Inr \<lparr>HB_required_features = [''OsmSchema-V0.6'', ''DenseNodes'']\<rparr>),
      Unmarshal_PrimitiveBlock = (\<lambda>b. Inr pb)\<rparr>"

definition sample_file :: reader where
  "sample_file = \<lparr>rd_rest = [0, 0, 0, 0, 0, 0, 0, 1, 7], rd_pos = 0\<rparr>"

definition sample_way_block :: PrimitiveBlock where
  "sample_way_block = block_with example_block [group_of [] [example_way] []]"

definition sample_way :: entity where
  "sample_way = EWay \<lparr>Way_ID = 7, Way_Tags = Map.empty, Way_NodeIDs = [100, 101, 102, 101],
                       Way_Timestamp = ZeroTime\<rparr>"




section \<open>Properties\<close>

subsection \<open>Delta decoding, members and tags\<close>

lemma parseWays_refs_length [simp]:
  "length (parseWays_refs refs index nodeID nodeIDs) = length nodeIDs"
  by (induction refs arbitrary: index nodeID nodeIDs) (simp_all add: Let_def)

lemma parseWays_refs_nth:
  "index + length refs \<le> length nodeIDs \<Longrightarrow> j < length nodeIDs \<Longrightarrow>
   parseWays_refs refs index nodeID nodeIDs ! j =
     (if index \<le> j \<and> j < index + length refs
      then nodeID + sum_list (take (Suc (j - index)) refs) else nodeIDs ! j)"
proof (induction refs arbitrary: index nodeID nodeIDs)
  case Nil
  then show ?case by auto
next
  case (Cons r refs)
  show ?case
  proof (cases "j = index")
    case True
    with Cons show ?thesis by (simp add: Let_def add.commute)
  next
    case False
    have "Suc index \<le> j \<Longrightarrow> Suc (j - Suc index) = j - index" by arith
    with False Cons show ?thesis
      by (auto simp: Let_def ac_simps)
  qed
qed

lemma way_nodeIDs_prefix_sum:
  "way_nodeIDs refs = map (prefix_sum refs) [0..<length refs]"
  by (rule nth_equalityI) (simp_all add: way_nodeIDs_def parseWays_refs_nth prefix_sum_def)

lemma extractMembers_loop_ok:
  "index + length mems \<le> length members \<Longrightarrow>
   \<forall>j<length mems. role_ok st types roleIDs (index + j) \<Longrightarrow>
   \<exists>ms. extractMembers_loop st types roleIDs mems index memID members = Inr ms \<and>
        length ms = length members \<and>
        (\<forall>j<length members. ms ! j =
           (if index \<le> j \<and> j < index + length mems
            then \<lparr>Member_ID = memID + sum_list (take (Suc (j - index)) mems),
                  Member_Type = memType_of (types ! j),
                  Member_Role = st ! nat (sint (roleIDs ! j))\<rparr>
            else members ! j))"
proof (induction mems arbitrary: index memID members)
  case Nil
  then show ?case by auto
next
  case (Cons m mems)
  from Cons.prems(2) have ok0: "role_ok st types roleIDs index" by force
  from Cons.prems(2) have okS: "\<forall>j<length mems. role_ok st types roleIDs (Suc index + j)"
    by force
  let ?mem = "\<lparr>Member_ID = m + memID, Member_Type = memType_of (types ! index),
               Member_Role = st ! nat (sint (roleIDs ! index))\<rparr>"
  from Cons.prems(1) have len: "Suc index + length mems \<le> length (members[index := ?mem])"
    by simp
  from Cons.IH [OF len okS, of "m + memID"] obtain ms where
    ms: "extractMembers_loop st types roleIDs mems (Suc index) (m + memID)
           (members[index := ?mem]) = Inr ms"
    and lms: "length ms = length members"
    and nth: "\<And>j. j < length members \<Longrightarrow> ms ! j =
           (if Suc index \<le> j \<and> j < Suc index + length mems
            then \<lparr>Member_ID = (m + memID) + sum_list (take (Suc (j - Suc index)) mems),
                  Member_Type = memType_of (types ! j),
                  Member_Role = st ! nat (sint (roleIDs ! j))\<rparr>
            else members[index := ?mem] ! j)"
    by auto
  have step: "extractMembers_loop st types roleIDs (m # mems) index memID members = Inr ms"
    using ok0 ms
    by (simp add: role_ok_def index_at_def stringTable_at_int32_def index_int_def Let_def)
  have "ms ! j =
           (if index \<le> j \<and> j < index + length (m # mems)
            then \<lparr>Member_ID = memID + sum_list (take (Suc (j - index)) (m # mems)),
                  Member_Type = memType_of (types ! j),
                  Member_Role = st ! nat (sint (roleIDs ! j))\<rparr>
            else members ! j)" if j: "j < length members" for j
  proof (cases "j = index")
    case True
    with nth [OF j] j show ?thesis by (simp add: add.commute)
  next
    case False
    have "Suc index \<le> j \<Longrightarrow> Suc (j - Suc index) = j - index" by arith
    with False nth [OF j] show ?thesis by (auto simp: ac_simps)
  qed
  with step lms show ?case by blast
qed

lemma extractMembers_loop_bad:
  "\<exists>j<length mems. \<not> role_ok st types roleIDs (index + j) \<Longrightarrow>
   extractMembers_loop st types roleIDs mems index memID members = Inl (Panic IndexOutOfRange)"
proof (induction mems arbitrary: index memID members)
  case Nil
  then show ?case by simp
next
  case (Cons m mems)
  show ?case
  proof (cases "role_ok st types roleIDs index")
    case False
    then show ?thesis
      by (auto simp: role_ok_def index_at_def stringTable_at_int32_def index_int_def Let_def)
  next
    case True
    from Cons.prems obtain j where j: "j < Suc (length mems)" "\<not> role_ok st types roleIDs (index + j)"
      by auto
    with True obtain k where "j = Suc k" by (cases j) auto
    with j have "\<exists>k<length mems. \<not> role_ok st types roleIDs (Suc index + k)" by auto
    from Cons.IH [OF this] True show ?thesis
      by (simp add: role_ok_def index_at_def stringTable_at_int32_def index_int_def Let_def)
  qed
qed

lemma extractMembers_wf:
  assumes "members_wf st rel"
  shows "extractMembers st rel = Inr (map (member_at st rel) [0..<length (PBR_memids rel)])"
proof -
  let ?n = "length (PBR_memids rel)"
  have "0 + ?n \<le> length (replicate ?n Member0)" by simp
  moreover have "\<forall>j<?n. role_ok st (PBR_types rel) (PBR_roles_sid rel) (0 + j)"
    using assms by (simp add: members_wf_def)
  ultimately obtain ms where
    ms: "extractMembers_loop st (PBR_types rel) (PBR_roles_sid rel) (PBR_memids rel) 0 0
           (replicate ?n Member0) = Inr ms"
    and len: "length ms = ?n"
    and nth: "\<forall>j<?n. ms ! j = member_at st rel j"
    using extractMembers_loop_ok [of 0 "PBR_memids rel" "replicate ?n Member0" st
        "PBR_types rel" "PBR_roles_sid rel" 0]
    by (auto simp: member_at_def prefix_sum_def)
  have "ms = map (member_at st rel) [0..<?n]"
    by (rule nth_equalityI) (use len nth in simp_all)
  with ms show ?thesis by (simp add: extractMembers_def)
qed

lemma extractMembers_not_wf:
  assumes "\<not> members_wf st rel"
  shows "extractMembers st rel = Inl (Panic IndexOutOfRange)"
proof -
  from assms have "\<exists>j<length (PBR_memids rel).
      \<not> role_ok st (PBR_types rel) (PBR_roles_sid rel) (0 + j)"
    by (simp add: members_wf_def)
  then show ?thesis
    unfolding extractMembers_def by (rule extractMembers_loop_bad)
qed

lemma extractTags_loop_cases:
  "(\<exists>t'. extractTags_loop st keys vals i t = Inr t') \<or>
   extractTags_loop st keys vals i t = Inl (Panic IndexOutOfRange)"
  by (induction keys arbitrary: i t)
     (auto simp: stringTable_at_def index_at_def split: sum.splits)

lemma extractTags_cases:
  "(\<exists>t. extractTags st keys vals = Inr t) \<or> extractTags st keys vals = Inl (Panic IndexOutOfRange)"
  unfolding extractTags_def by (rule extractTags_loop_cases)

lemma extractTags_loop_wf:
  "\<forall>j<length keys. unat (keys ! j) < length st \<and> i + j < length vals \<and>
                    unat (vals ! (i + j)) < length st \<Longrightarrow>
   \<exists>t'. extractTags_loop st keys vals i t = Inr t'"
proof (induction keys arbitrary: i t)
  case Nil
  then show ?case by simp
next
  case (Cons k keys)
  from Cons.prems have k: "unat k < length st" "i < length vals" "unat (vals ! i) < length st"
    by force+
  from Cons.prems have "\<forall>j<length keys. unat (keys ! j) < length st \<and>
      Suc i + j < length vals \<and> unat (vals ! (Suc i + j)) < length st"
    by force
  from Cons.IH [OF this] k show ?case
    by (simp add: stringTable_at_def index_at_def)
qed

lemma extractTags_wf: "tags_wf st keys vals \<Longrightarrow> \<exists>t. extractTags st keys vals = Inr t"
  unfolding extractTags_def tags_wf_def
  by (rule extractTags_loop_wf) simp

lemma parseWays_Inr:
  "parseWays pb ways q = Inr q' \<Longrightarrow>
   \<exists>ws. q' = q @ map EWay ws \<and>
        list_all2 (\<lambda>way w. Way_ID w = PBW_id way \<and>
            Way_NodeIDs w = map (prefix_sum (PBW_refs way)) [0..<length (PBW_refs way)])
          ways ws"
proof (induction ways arbitrary: q)
  case Nil
  then show ?case by simp
next
  case (Cons way ways)
  from Cons.prems obtain tags where
    tags: "extractTags (PB_stringtable pb) (PBW_keys way) (PBW_vals way) = Inr tags"
    by (auto simp: Let_def split: sum.splits)
  let ?w = "\<lparr>Way_ID = PBW_id way, Way_Tags = tags, Way_NodeIDs = way_nodeIDs (PBW_refs way),
             Way_Timestamp = info_Time (PBW_info way)
               (int64_of_int32 (GetDateGranularity pb))\<rparr>"
  from Cons.prems tags have "parseWays pb ways (q @ [EWay ?w]) = Inr q'"
    by (simp add: Let_def)
  from Cons.IH [OF this] obtain ws where
    "q' = (q @ [EWay ?w]) @ map EWay ws"
    "list_all2 (\<lambda>way w. Way_ID w = PBW_id way \<and>
            Way_NodeIDs w = map (prefix_sum (PBW_refs way)) [0..<length (PBW_refs way)])
          ways ws"
    by blast
  then have "q' = q @ map EWay (?w # ws) \<and>
    list_all2 (\<lambda>way w. Way_ID w = PBW_id way \<and>
            Way_NodeIDs w = map (prefix_sum (PBW_refs way)) [0..<length (PBW_refs way)])
          (way # ways) (?w # ws)"
    by (simp add: way_nodeIDs_prefix_sum)
  then show ?case by blast
qed

lemma parseWays_total:
  "\<forall>way\<in>set ways. tags_wf (PB_stringtable pb) (PBW_keys way) (PBW_vals way) \<Longrightarrow>
   \<exists>q'. parseWays pb ways q = Inr q'"
proof (induction ways arbitrary: q)
  case Nil
  then show ?case by simp
next
  case (Cons way ways)
  then obtain tags where
    "extractTags (PB_stringtable pb) (PBW_keys way) (PBW_vals way) = Inr tags"
    using extractTags_wf by fastforce
  with Cons show ?case by (simp add: Let_def)
qed

lemma parseRelations_Inr:
  "parseRelations pb rels q = Inr q' \<Longrightarrow>
   \<exists>rs. q' = q @ map ERelation rs \<and>
        list_all2 (\<lambda>rel r. Relation_ID r = PBR_id rel \<and> members_wf (PB_stringtable pb) rel \<and>
            Relation_Members r =
              map (member_at (PB_stringtable pb) rel) [0..<length (PBR_memids rel)])
          rels rs"
proof (induction rels arbitrary: q)
  case Nil
  then show ?case by simp
next
  case (Cons rel rels)
  from Cons.prems obtain tags members where
    tags: "extractTags (PB_stringtable pb) (PBR_keys rel) (PBR_vals rel) = Inr tags"
    and mem: "extractMembers (PB_stringtable pb) rel = Inr members"
    by (auto simp: Let_def split: sum.splits)
  from mem have wf: "members_wf (PB_stringtable pb) rel"
    using extractMembers_not_wf by fastforce
  with mem have members:
    "members = map (member_at (PB_stringtable pb) rel) [0..<length (PBR_memids rel)]"
    by (simp add: extractMembers_wf)
  let ?r = "\<lparr>Relation_ID = PBR_id rel, Relation_Tags = tags, Relation_Members = members,
             Relation_Timestamp = info_Time (PBR_info rel)
               (int64_of_int32 (GetDateGranularity pb))\<rparr>"
  from Cons.prems tags mem have "parseRelations pb rels (q @ [ERelation ?r]) = Inr q'"
    by (simp add: Let_def)
  from Cons.IH [OF this] obtain rs where
    "q' = (q @ [ERelation ?r]) @ map ERelation rs"
    "list_all2 (\<lambda>rel r. Relation_ID r = PBR_id rel \<and> members_wf (PB_stringtable pb) rel \<and>
            Relation_Members r =
              map (member_at (PB_stringtable pb) rel) [0..<length (PBR_memids rel)])
          rels rs"
    by blast
  then have "q' = q @ map ERelation (?r # rs) \<and>
    list_all2 (\<lambda>rel r. Relation_ID r = PBR_id rel \<and> members_wf (PB_stringtable pb) rel \<and>
            Relation_Members r =
              map (member_at (PB_stringtable pb) rel) [0..<length (PBR_memids rel)])
          (rel # rels) (?r # rs)"
    using wf members by simp
  then show ?case by blast
qed

lemma parseRelations_total:
  "\<forall>rel\<in>set rels. tags_wf (PB_stringtable pb) (PBR_keys rel) (PBR_vals rel) \<and>
                    members_wf (PB_stringtable pb) rel \<Longrightarrow>
   \<exists>q'. parseRelations pb rels q = Inr q'"
proof (induction rels arbitrary: q)
  case Nil
  then show ?case by simp
next
  case (Cons rel rels)
  then obtain tags where
    "extractTags (PB_stringtable pb) (PBR_keys rel) (PBR_vals rel) = Inr tags"
    using extractTags_wf by fastforce
  with Cons show ?case by (simp add: Let_def extractMembers_wf)
qed


subsection \<open>Dense nodes\<close>

lemma sum_list_take_Suc:
  "i < length xs \<Longrightarrow> sum_list (take (Suc i) xs) = (xs ! i) + sum_list (take i (xs :: int64 list))"
  by (simp add: take_Suc_conv_app_nth)

lemma parseDenseNodes_loop_spec:
  assumes lat: "length (DN_lat dn) = length (DN_id dn)"
    and lon: "length (DN_lon dn) = length (DN_id dn)"
    and tsl: "\<forall>ts. dense_timestamps (Some dn) = Some ts \<longrightarrow> length ts = length (DN_id dn)"
  shows "rest = drop index (DN_id dn) \<Longrightarrow> index \<le> length (DN_id dn) \<Longrightarrow>
     acc_id a = sum_list (take index (DN_id dn)) \<Longrightarrow>
     acc_lat a = sum_list (take index (DN_lat dn)) \<Longrightarrow>
     acc_lon a = sum_list (take index (DN_lon dn)) \<Longrightarrow>
     (\<forall>ts. dense_timestamps (Some dn) = Some ts \<longrightarrow> acc_timestamp a = sum_list (take index ts)) \<Longrightarrow>
     (dense_timestamps (Some dn) = None \<longrightarrow> acc_ts a = ZeroTime) \<Longrightarrow>
     tagUnpacker_run (PB_stringtable pb) (DN_keys_vals dn) (acc_tu a) (length rest) = Inr tgs \<Longrightarrow>
     parseDenseNodes_loop pb (Some dn) rest index a q =
       Inr (q @ map (\<lambda>j. ENode (dense_node pb dn (tgs ! (j - index)) j))
                    [index..<length (DN_id dn)])"
proof (induction rest arbitrary: index a q tgs)
  case Nil
  then show ?case by simp
next
  case (Cons d rest)
  let ?n = "length (DN_id dn)"
  from Cons.prems(1) have idx: "index < ?n"
    by (metis drop_eq_Nil2 list.distinct(1) not_le_imp_less)
  then have d: "d = DN_id dn ! index" and rest: "rest = drop (Suc index) (DN_id dn)"
    using Cons.prems(1) by (simp_all add: Cons_nth_drop_Suc [symmetric])
  from Cons.prems(8) obtain t c' ts where
    nxt: "tagUnpacker_next (PB_stringtable pb) (DN_keys_vals dn) (acc_tu a) = Inr (t, c')"
    and run: "tagUnpacker_run (PB_stringtable pb) (DN_keys_vals dn) c' (length rest) = Inr ts"
    and tgs: "tgs = t # ts"
    by (auto split: sum.splits)
  have upt: "[index..<?n] = index # [Suc index..<?n]"
    using idx by (simp add: upt_conv_Cons)
  have tl: "map (\<lambda>j. ENode (dense_node pb dn (tgs ! (j - index)) j)) [Suc index..<?n] =
            map (\<lambda>j. ENode (dense_node pb dn (ts ! (j - Suc index)) j)) [Suc index..<?n]"
    by (rule map_cong) (auto simp: tgs Suc_diff_le)
  show ?case
  proof (cases "dense_timestamps (Some dn)")
    case None
    let ?a = "a\<lparr>acc_id := d + acc_id a, acc_lat := DN_lat dn ! index + acc_lat a,
                acc_lon := DN_lon dn ! index + acc_lon a, acc_tu := c'\<rparr>"
    let ?e = "ENode (dense_node pb dn t index)"
    have IH: "parseDenseNodes_loop pb (Some dn) rest (Suc index) ?a (q @ [?e]) =
       Inr ((q @ [?e]) @ map (\<lambda>j. ENode (dense_node pb dn (ts ! (j - Suc index)) j))
                    [Suc index..<?n])"
      using idx Cons.prems lat lon None run
      by (intro Cons.IH) (simp_all add: rest d sum_list_take_Suc)
    have "parseDenseNodes_loop pb (Some dn) (d # rest) index a q =
          parseDenseNodes_loop pb (Some dn) rest (Suc index) ?a (q @ [?e])"
      using idx lat lon None nxt Cons.prems(3-7)
      by (simp add: Let_def index_at_def GetLat_def GetLon_def GetKeysVals_def
          dense_node_def int64_of_int32_def prefix_sum_def coordinate_def sum_list_take_Suc d)
    with IH show ?thesis by (simp add: upt tl tgs)
  next
    case (Some tsl')
    with tsl have ltsl: "length tsl' = ?n" by simp
    let ?a = "\<lparr>acc_id = d + acc_id a, acc_lat = DN_lat dn ! index + acc_lat a,
                acc_lon = DN_lon dn ! index + acc_lon a,
                acc_timestamp = tsl' ! index + acc_timestamp a,
                acc_ts = timestamp_to_Time (tsl' ! index + acc_timestamp a)
                           (int64_of_int32 (GetDateGranularity pb)),
                acc_tu = c'\<rparr>"
    let ?e = "ENode (dense_node pb dn t index)"
    have IH: "parseDenseNodes_loop pb (Some dn) rest (Suc index) ?a (q @ [?e]) =
       Inr ((q @ [?e]) @ map (\<lambda>j. ENode (dense_node pb dn (ts ! (j - Suc index)) j))
                    [Suc index..<?n])"
      using idx Cons.prems lat lon Some ltsl run
      by (intro Cons.IH) (simp_all add: rest d sum_list_take_Suc)
    have "parseDenseNodes_loop pb (Some dn) (d # rest) index a q =
          parseDenseNodes_loop pb (Some dn) rest (Suc index) ?a (q @ [?e])"
      using idx lat lon Some ltsl nxt Cons.prems(3-7)
      by (simp add: Let_def index_at_def GetLat_def GetLon_def GetKeysVals_def
          dense_node_def int64_of_int32_def prefix_sum_def coordinate_def sum_list_take_Suc d
          timestamp_to_Time_def)
    with IH show ?thesis by (simp add: upt tl tgs)
  qed
qed

subsection \<open>The decoder fails only by a panic\<close>

declare tagUnpacker_loop.simps [simp del]

lemma index_at_panic: "index_at xs i = Inl e \<Longrightarrow> e = Panic IndexOutOfRange"
  by (simp add: index_at_def split: if_splits)

lemma stringTable_at_int32_panic:
  "stringTable_at_int32 st i = Inl e \<Longrightarrow> e = Panic IndexOutOfRange"
  by (simp add: stringTable_at_int32_def index_int_def split: if_splits)

lemma tagUnpacker_loop_panic:
  "tagUnpacker_loop st kvs c t = Inl e \<Longrightarrow> e = Panic IndexOutOfRange"
proof (induction st kvs c t rule: tagUnpacker_loop.induct)
  case (1 st kvs c t)
  show ?case
  proof (cases "c < length kvs \<and> kvs ! c \<noteq> 0")
    case False
    with "1.prems" show ?thesis by (simp add: tagUnpacker_loop.simps)
  next
    case True
    show ?thesis
    proof (cases "stringTable_at_int32 st (kvs ! c)")
      case (Inl e1)
      with "1.prems" True show ?thesis
        by (subst (asm) tagUnpacker_loop.simps) (auto dest: stringTable_at_int32_panic)
    next
      case k: (Inr k)
      show ?thesis
      proof (cases "index_at kvs (c + 1)")
        case (Inl e2)
        with "1.prems" True k show ?thesis
          by (subst (asm) tagUnpacker_loop.simps) (auto dest: index_at_panic)
      next
        case vi: (Inr vi)
        show ?thesis
        proof (cases "stringTable_at_int32 st vi")
          case (Inl e3)
          with "1.prems" True k vi show ?thesis
            by (subst (asm) tagUnpacker_loop.simps) (auto dest: stringTable_at_int32_panic)
        next
          case v: (Inr v)
          from "1.prems" True k vi v
          have "tagUnpacker_loop st kvs (c + 2) (t(k \<mapsto> v)) = Inl e"
            by (subst (asm) tagUnpacker_loop.simps) simp
          with "1.IH" [OF True k vi v] show ?thesis .
        qed
      qed
    qed
  qed
qed

lemma tagUnpacker_next_panic:
  "tagUnpacker_next st kvs c = Inl e \<Longrightarrow> e = Panic IndexOutOfRange"
  by (auto simp: tagUnpacker_next_def split: sum.splits dest: tagUnpacker_loop_panic)

lemma parseDenseNodes_loop_panic:
  "parseDenseNodes_loop pb dn ids index a q = Inl e \<Longrightarrow> e = Panic IndexOutOfRange"
proof (induction ids arbitrary: index a q)
  case Nil
  then show ?case by simp
next
  case (Cons d ids)
  then show ?case
    by (auto simp: Let_def index_at_def split: sum.splits option.splits if_splits
             dest: tagUnpacker_next_panic)
qed

lemma parseDenseNodes_panic:
  "parseDenseNodes pb dn q = Inl e \<Longrightarrow> e = Panic IndexOutOfRange"
  unfolding parseDenseNodes_def by (rule parseDenseNodes_loop_panic)








text \<open>
  With an empty \<open>keys_vals\<close> every node has the empty tags and no call fails.
\<close>

lemma tagUnpacker_run_empty:
  "tagUnpacker_run st [] c n = Inr (replicate n Map.empty)"
  by (induction n arbitrary: c) (simp_all add: tagUnpacker_next_def tagUnpacker_loop.simps)

subsection \<open>Dense nodes: the decoded nodes, or the panic\<close>

text \<open>
  Claim C1 says that every DenseNodes group whose arrays \<open>id\<close>, \<open>lat\<close>, \<open>lon\<close> (and the
  timestamps of \<open>denseinfo\<close>, when present) have the same length \<open>n\<close> is decoded into \<open>n\<close>
  nodes. It does not hold: the lengths say nothing of \<open>keys_vals\<close>. On a group with three
  entries in each array whose \<open>keys_vals\<close> is \<open>[9, 9, 0]\<close>, with a string table of five
  strings, \<open>parseDenseNodes\<close> ends in the run-time panic \<open>index out of range\<close> and returns no
  node.
\<close>

theorem dense_keys_vals_counterexample:
  "length (DN_lat dense_bad_keys_vals) = length (DN_id dense_bad_keys_vals) \<and>
   length (DN_lon dense_bad_keys_vals) = length (DN_id dense_bad_keys_vals) \<and>
   dense_timestamps (Some dense_bad_keys_vals) = Some [1, 1, 1] \<and>
   parseDenseNodes example_block (Some dense_bad_keys_vals) [] = Inl (Panic IndexOutOfRange)"
  by (simp add: dense_bad_keys_vals_def example_block_def parseDenseNodes_def dense_acc0_def
      GetId_def GetLat_def GetLon_def GetKeysVals_def GetDenseinfo_def dense_timestamps_def
      index_at_def Let_def tagUnpacker_next_def tagUnpacker_loop.simps
      stringTable_at_int32_def index_int_def)

lemma parseDenseNodes_loop_Inr_run:
  "parseDenseNodes_loop pb dn rest index a q = Inr res \<Longrightarrow>
   \<exists>tgs. tagUnpacker_run (PB_stringtable pb) (GetKeysVals dn) (acc_tu a) (length rest) = Inr tgs"
proof (induction rest arbitrary: index a q)
  case Nil
  then show ?case by simp
next
  case (Cons d rest)
  from Cons.prems obtain t c' where
    nxt: "tagUnpacker_next (PB_stringtable pb) (GetKeysVals dn) (acc_tu a) = Inr (t, c')"
    by (auto simp: Let_def split: sum.splits)
  from Cons.prems nxt obtain a' q' where
    rec: "parseDenseNodes_loop pb dn rest (Suc index) a' q' = Inr res" and a': "acc_tu a' = c'"
    by (auto simp: Let_def split: sum.splits option.splits)
  from Cons.IH [OF rec] a' nxt show ?case by auto
qed

text \<open>
  Claim C1, amended. For a DenseNodes group whose arrays \<open>id\<close>, \<open>lat\<close>, \<open>lon\<close> (and the
  timestamps of \<open>denseinfo\<close>, when present) have the same length \<open>n\<close>, the result of
  \<open>parseDenseNodes\<close> is decided by the \<open>n\<close> successive calls of the tag unpacker on
  \<open>keys_vals\<close>. When all of them return, exactly \<open>n\<close> nodes are appended to the queue, in
  positional order. The \<open>i\<close>-th node has the tags of the \<open>i\<close>-th call, the prefix sum
  \<open>id[0] + ... + id[i]\<close> as id, \<open>1e-9 * (lat_offset + granularity * (lat[0] + ... + lat[i]))\<close>
  as latitude, the same with \<open>lon\<close> as longitude, and, when timestamps are present, the time
  \<open>time.Unix(0, (ts[0] + ... + ts[i]) * date_granularity * 1000000)\<close> in UTC; without
  timestamps it has the zero time. When one of the calls reads outside \<open>keys_vals\<close> or
  outside the string table, \<open>parseDenseNodes\<close> ends in the panic \<open>index out of range\<close> and
  returns no node. All sums and products are those of \<open>int64\<close>; the granularities are
  \<open>int32\<close> values taken with their sign.
\<close>

theorem parseDenseNodes_prefix_sums_or_panic:
  assumes "length (DN_lat dn) = length (DN_id dn)"
    and "length (DN_lon dn) = length (DN_id dn)"
    and "\<forall>ts. dense_timestamps (Some dn) = Some ts \<longrightarrow> length ts = length (DN_id dn)"
  shows "parseDenseNodes pb (Some dn) q =
           (case tagUnpacker_run (PB_stringtable pb) (DN_keys_vals dn) 0 (length (DN_id dn)) of
              Inr tgs \<Rightarrow>
                Inr (q @ map (\<lambda>i. ENode (dense_node pb dn (tgs ! i) i)) [0..<length (DN_id dn)])
            | Inl e \<Rightarrow> Inl (Panic IndexOutOfRange))"
proof (cases "tagUnpacker_run (PB_stringtable pb) (DN_keys_vals dn) 0 (length (DN_id dn))")
  case (Inr tgs)
  with parseDenseNodes_loop_spec [OF assms(1-3), of "DN_id dn" 0 dense_acc0 pb tgs q]
  show ?thesis by (simp add: parseDenseNodes_def GetId_def dense_acc0_def)
next
  case (Inl e)
  show ?thesis
  proof (cases "parseDenseNodes pb (Some dn) q")
    case l: (Inl e')
    with parseDenseNodes_panic [OF l] Inl show ?thesis by simp
  next
    case r: (Inr res)
    from parseDenseNodes_loop_Inr_run [of pb "Some dn" "DN_id dn" 0 dense_acc0 q res] r Inl
    show ?thesis by (simp add: parseDenseNodes_def GetId_def GetKeysVals_def dense_acc0_def)
  qed
qed

text \<open>
  The group of the spec's examples: ids \<open>[10, 5, -3]\<close> give the ids \<open>[10, 15, 12]\<close>, and the
  stream \<open>[1, 2, 0, 0, 3, 4, 0]\<close> gives the tags of the three nodes. A block with
  \<open>granularity = -100\<close> and \<open>date_granularity = -1\<close>: the coordinates and times are
  negative multiples. A group whose \<open>keys_vals\<close> is \<open>[1]\<close>, a key without a value: the panic.
\<close>

theorem parseDenseNodes_prefix_sums_or_panic_witness:
  "parseDenseNodes example_block (Some example_dense) [] =
     Inr [ENode \<lparr>Node_ID = 10, Node_Lat = Times1em9 100, Node_Lon = Times1em9 400,
                  Node_Tags = [''highway'' \<mapsto> ''primary''],
                  Node_Timestamp = UnixNanoUTC 1000000000\<rparr>,
          ENode \<lparr>Node_ID = 15, Node_Lat = Times1em9 300, Node_Lon = Times1em9 900,
                  Node_Tags = Map.empty, Node_Timestamp = UnixNanoUTC 2000000000\<rparr>,
          ENode \<lparr>Node_ID = 12, Node_Lat = Times1em9 600, Node_Lon = Times1em9 1500,
                  Node_Tags = [''name'' \<mapsto> ''A1''],
                  Node_Timestamp = UnixNanoUTC 3000000000\<rparr>] \<and>
   parseDenseNodes negative_block (Some dense_plain) [] =
     Inr [ENode \<lparr>Node_ID = 1, Node_Lat = Times1em9 (- 93), Node_Lon = Times1em9 93,
                  Node_Tags = Map.empty, Node_Timestamp = UnixNanoUTC (- 2000000)\<rparr>,
          ENode \<lparr>Node_ID = 2, Node_Lat = Times1em9 207, Node_Lon = Times1em9 (- 107),
                  Node_Tags = Map.empty, Node_Timestamp = UnixNanoUTC (- 3000000)\<rparr>] \<and>
   parseDenseNodes example_block (Some dense_key_without_value) [] = Inl (Panic IndexOutOfRange)"
proof -
  have h1: "length (DN_lat example_dense) = length (DN_id example_dense)"
    and h2: "length (DN_lon example_dense) = length (DN_id example_dense)"
    and h3: "\<forall>ts. dense_timestamps (Some example_dense) = Some ts \<longrightarrow>
                  length ts = length (DN_id example_dense)"
    by (simp_all add: example_dense_def dense_timestamps_def GetDenseinfo_def)
  have h4: "tagUnpacker_run (PB_stringtable example_block) (DN_keys_vals example_dense) 0
              (length (DN_id example_dense)) =
            Inr [[''highway'' \<mapsto> ''primary''], Map.empty, [''name'' \<mapsto> ''A1'']]"
    by (simp add: example_dense_def example_block_def numeral_3_eq_3 tagUnpacker_next_def
        tagUnpacker_loop.simps stringTable_at_int32_def index_int_def index_at_def)
  have a: "parseDenseNodes example_block (Some example_dense) [] =
     Inr [ENode \<lparr>Node_ID = 10, Node_Lat = Times1em9 100, Node_Lon = Times1em9 400,
                  Node_Tags = [''highway'' \<mapsto> ''primary''],
                  Node_Timestamp = UnixNanoUTC 1000000000\<rparr>,
          ENode \<lparr>Node_ID = 15, Node_Lat = Times1em9 300, Node_Lon = Times1em9 900,
                  Node_Tags = Map.empty, Node_Timestamp = UnixNanoUTC 2000000000\<rparr>,
          ENode \<lparr>Node_ID = 12, Node_Lat = Times1em9 600, Node_Lon = Times1em9 1500,
                  Node_Tags = [''name'' \<mapsto> ''A1''],
                  Node_Timestamp = UnixNanoUTC 3000000000\<rparr>]"
    using parseDenseNodes_prefix_sums_or_panic [OF h1 h2 h3, of example_block "[]"] h4
    by (simp add: example_dense_def example_block_def dense_node_def prefix_sum_def
        dense_timestamps_def GetDenseinfo_def GetLatOffset_def GetLonOffset_def
        GetGranularity_def GetDateGranularity_def upt_rec)
  have n1: "length (DN_lat dense_plain) = length (DN_id dense_plain)"
    and n2: "length (DN_lon dense_plain) = length (DN_id dense_plain)"
    and n3: "\<forall>ts. dense_timestamps (Some dense_plain) = Some ts \<longrightarrow>
                  length ts = length (DN_id dense_plain)"
    by (simp_all add: dense_plain_def dense_timestamps_def GetDenseinfo_def)
  have n4: "tagUnpacker_run (PB_stringtable negative_block) (DN_keys_vals dense_plain) 0
              (length (DN_id dense_plain)) = Inr [Map.empty, Map.empty]"
    by (simp add: dense_plain_def numeral_2_eq_2 tagUnpacker_next_def tagUnpacker_loop.simps)
  have b: "parseDenseNodes negative_block (Some dense_plain) [] =
     Inr [ENode \<lparr>Node_ID = 1, Node_Lat = Times1em9 (- 93), Node_Lon = Times1em9 93,
                  Node_Tags = Map.empty, Node_Timestamp = UnixNanoUTC (- 2000000)\<rparr>,
          ENode \<lparr>Node_ID = 2, Node_Lat = Times1em9 207, Node_Lon = Times1em9 (- 107),
                  Node_Tags = Map.empty, Node_Timestamp = UnixNanoUTC (- 3000000)\<rparr>]"
    using parseDenseNodes_prefix_sums_or_panic [OF n1 n2 n3, of negative_block "[]"] n4
    by (simp add: dense_plain_def negative_block_def dense_node_def prefix_sum_def
        dense_timestamps_def GetDenseinfo_def GetLatOffset_def GetLonOffset_def
        GetGranularity_def GetDateGranularity_def upt_rec)
  have b1: "length (DN_lat dense_key_without_value) = length (DN_id dense_key_without_value)"
    and b2: "length (DN_lon dense_key_without_value) = length (DN_id dense_key_without_value)"
    and b3: "\<forall>ts. dense_timestamps (Some dense_key_without_value) = Some ts \<longrightarrow>
                  length ts = length (DN_id dense_key_without_value)"
    by (simp_all add: dense_key_without_value_def dense_timestamps_def GetDenseinfo_def)
  have b4: "tagUnpacker_run (PB_stringtable example_block) (DN_keys_vals dense_key_without_value) 0
              (length (DN_id dense_key_without_value)) = Inl (Panic IndexOutOfRange)"
    by (simp add: dense_key_without_value_def example_block_def numeral_3_eq_3 tagUnpacker_next_def
        tagUnpacker_loop.simps stringTable_at_int32_def index_int_def index_at_def)
  have c: "parseDenseNodes example_block (Some dense_key_without_value) [] =
      Inl (Panic IndexOutOfRange)"
    using parseDenseNodes_prefix_sums_or_panic [OF b1 b2 b3, of example_block "[]"] b4
    by simp
  from a b c show ?thesis by blast
qed

subsection \<open>Ways, relations and sparse nodes\<close>

text \<open>
  Claim C5. Every Way that \<open>parseWays\<close> emits has as many \<open>NodeIDs\<close> as the way has
  \<open>refs\<close>, and the \<open>i\<close>-th is the prefix sum of the first \<open>i + 1\<close> deltas from a base of 0;
  every Relation that \<open>parseRelations\<close> emits has as many members as the relation has
  \<open>memids\<close>, and the id of the \<open>i\<close>-th is the prefix sum of the first \<open>i + 1\<close> deltas.
  Both functions do return a queue when the string-table indices (and, for relations, the
  parallel arrays) are valid.
\<close>

theorem delta_refs_and_memids_are_prefix_sums:
  "(\<forall>q'. parseWays pb ways q = Inr q' \<longrightarrow>
      (\<exists>ws. q' = q @ map EWay ws \<and>
         list_all2 (\<lambda>way w. length (Way_NodeIDs w) = length (PBW_refs way) \<and>
            (\<forall>i<length (PBW_refs way). Way_NodeIDs w ! i = prefix_sum (PBW_refs way) i))
           ways ws)) \<and>
   ((\<forall>way\<in>set ways. tags_wf (PB_stringtable pb) (PBW_keys way) (PBW_vals way)) \<longrightarrow>
      (\<exists>q'. parseWays pb ways q = Inr q')) \<and>
   (\<forall>q'. parseRelations pb rels q = Inr q' \<longrightarrow>
      (\<exists>rs. q' = q @ map ERelation rs \<and>
         list_all2 (\<lambda>rel r. length (Relation_Members r) = length (PBR_memids rel) \<and>
            (\<forall>i<length (PBR_memids rel).
               Member_ID (Relation_Members r ! i) = prefix_sum (PBR_memids rel) i))
           rels rs)) \<and>
   ((\<forall>rel\<in>set rels. tags_wf (PB_stringtable pb) (PBR_keys rel) (PBR_vals rel) \<and>
                     members_wf (PB_stringtable pb) rel) \<longrightarrow>
      (\<exists>q'. parseRelations pb rels q = Inr q'))"
proof (intro conjI allI impI)
  fix q' assume "parseWays pb ways q = Inr q'"
  from parseWays_Inr [OF this] obtain ws where ws: "q' = q @ map EWay ws"
    "list_all2 (\<lambda>way w. Way_ID w = PBW_id way \<and>
            Way_NodeIDs w = map (prefix_sum (PBW_refs way)) [0..<length (PBW_refs way)])
          ways ws" by blast
  from ws(2) have "list_all2 (\<lambda>way w. length (Way_NodeIDs w) = length (PBW_refs way) \<and>
            (\<forall>i<length (PBW_refs way). Way_NodeIDs w ! i = prefix_sum (PBW_refs way) i))
           ways ws"
    by (rule list_all2_mono) simp
  with ws(1) show "\<exists>ws. q' = q @ map EWay ws \<and>
         list_all2 (\<lambda>way w. length (Way_NodeIDs w) = length (PBW_refs way) \<and>
            (\<forall>i<length (PBW_refs way). Way_NodeIDs w ! i = prefix_sum (PBW_refs way) i))
           ways ws" by blast
next
  assume "\<forall>way\<in>set ways. tags_wf (PB_stringtable pb) (PBW_keys way) (PBW_vals way)"
  then show "\<exists>q'. parseWays pb ways q = Inr q'" by (rule parseWays_total)
next
  fix q' assume "parseRelations pb rels q = Inr q'"
  from parseRelations_Inr [OF this] obtain rs where rs: "q' = q @ map ERelation rs"
    "list_all2 (\<lambda>rel r. Relation_ID r = PBR_id rel \<and> members_wf (PB_stringtable pb) rel \<and>
            Relation_Members r =
              map (member_at (PB_stringtable pb) rel) [0..<length (PBR_memids rel)])
          rels rs" by blast
  from rs(2) have "list_all2 (\<lambda>rel r. length (Relation_Members r) = length (PBR_memids rel) \<and>
            (\<forall>i<length (PBR_memids rel).
               Member_ID (Relation_Members r ! i) = prefix_sum (PBR_memids rel) i))
           rels rs"
    by (rule list_all2_mono) (simp add: member_at_def)
  with rs(1) show "\<exists>rs. q' = q @ map ERelation rs \<and>
         list_all2 (\<lambda>rel r. length (Relation_Members r) = length (PBR_memids rel) \<and>
            (\<forall>i<length (PBR_memids rel).
               Member_ID (Relation_Members r ! i) = prefix_sum (PBR_memids rel) i))
           rels rs" by blast
next
  assume "\<forall>rel\<in>set rels. tags_wf (PB_stringtable pb) (PBR_keys rel) (PBR_vals rel) \<and>
                     members_wf (PB_stringtable pb) rel"
  then show "\<exists>q'. parseRelations pb rels q = Inr q'" by (rule parseRelations_total)
qed

lemma role_ok_simps:
  "role_ok st types roleIDs i =
     (i < length types \<and> i < length roleIDs \<and>
      0 \<le> sint (roleIDs ! i) \<and> sint (roleIDs ! i) < int (length st))"
  by (simp add: role_ok_def)

text \<open>
  The way of the spec's scenario 3, \<open>refs = [100, 1, 1, -1]\<close>, and the relation of its
  scenario 4.
\<close>

theorem delta_refs_and_memids_are_prefix_sums_witness:
  "parseWays example_block [example_way] [] =
     Inr [EWay \<lparr>Way_ID = 7, Way_Tags = Map.empty, Way_NodeIDs = [100, 101, 102, 101],
                 Way_Timestamp = ZeroTime\<rparr>] \<and>
   tags_wf (PB_stringtable example_block) (PBW_keys example_way) (PBW_vals example_way) \<and>
   parseRelations example_block [example_relation] [] =
     Inr [ERelation \<lparr>Relation_ID = 9, Relation_Tags = Map.empty,
            Relation_Members =
              [\<lparr>Member_ID = 5, Member_Type = NodeType, Member_Role = ''highway''\<rparr>,
               \<lparr>Member_ID = 7, Member_Type = WayType, Member_Role = ''primary''\<rparr>,
               \<lparr>Member_ID = 4, Member_Type = RelationType, Member_Role = ''highway''\<rparr>],
            Relation_Timestamp = ZeroTime\<rparr>] \<and>
   members_wf (PB_stringtable example_block) example_relation \<and>
   prefix_sum [100, 1, 1, - 1] 3 = 101 \<and> prefix_sum [5, 2, - 3] 2 = 4"
  using delta_refs_and_memids_are_prefix_sums
          [of example_block "[example_way]" "[]" "[example_relation]"]
  by (simp add: example_block_def example_way_def example_relation_def extractTags_def
      way_nodeIDs_def info_Time_def extractMembers_def index_at_def
      stringTable_at_int32_def index_int_def memType_of_def Relation_NODE_def
      Relation_WAY_def Relation_RELATION_def Member0_def tags_wf_def members_wf_def
      role_ok_def prefix_sum_def numeral_3_eq_3 less_Suc_eq Let_def)






text \<open>
  Claim C3 says that every sparse Node entry is emitted as a Node and that decoding then
  proceeds to the next entry. It does not hold: on the node of the spec's scenario 1,
  \<open>parseNodes\<close> and with it \<open>Decode\<close> end in the panic \<open>"Please test this first"\<close>.
\<close>

theorem sparse_node_counterexample:
  "parseNodes example_block [example_node] [] =
     Inl (Panic (PanicMsg ''Please test this first'')) \<and>
   parseNodes example_block [example_node] [] \<noteq>
     Inr [ENode \<lparr>Node_ID = 42, Node_Lat = Times1em9 45000000000,
                  Node_Lon = Times1em9 9000000000, Node_Tags = Map.empty,
                  Node_Timestamp = ZeroTime\<rparr>] \<and>
   Decode (sample_extern data_header \<lparr>HB_required_features = []\<rparr>
             (block_with example_block [group_of [example_node] [] []])) raw_blob =
     Inl (Panic (PanicMsg ''Please test this first''))"
  by (simp add: Decode_def getData_def sample_extern_def raw_blob_def block_with_def
      example_block_def group_of_def example_node_def parsePrimitiveBlock_def
      parsePrimitiveGroup_def extractTags_def Let_def)

text \<open>
  Claim C3, amended. The loop body of \<open>parseNodes\<close> ends in an unconditional panic. For a
  group without sparse Node entries \<open>parseNodes\<close> leaves the queue as it is and the group's
  dense nodes, ways and relations are decoded. For a group with at least one sparse Node
  entry, the decoding of the block ends in a panic after the first entry: the panic
  \<open>"Please test this first"\<close> when the entry's tag indices are valid; no entity of the
  block is emitted.
\<close>

theorem sparse_nodes_stop_at_first_entry:
  "parseNodes pb [] q = Inr q \<and>
   (tags_wf (PB_stringtable pb) (PBN_keys node) (PBN_vals node) \<longrightarrow>
      parseNodes pb (node # nodes) q = Inl (Panic (PanicMsg ''Please test this first''))) \<and>
   (\<exists>p. parseNodes pb (node # nodes) q = Inl (Panic p)) \<and>
   (PG_nodes pg \<noteq> [] \<longrightarrow> (\<exists>p. parsePrimitiveGroup pb pg q = Inl (Panic p))) \<and>
   (PG_nodes pg = [] \<longrightarrow>
      parsePrimitiveGroup pb pg q =
        (case parseDenseNodes pb (PG_dense pg) q of Inl e \<Rightarrow> Inl e | Inr q2 \<Rightarrow>
         case parseWays pb (PG_ways pg) q2 of Inl e \<Rightarrow> Inl e | Inr q3 \<Rightarrow>
           parseRelations pb (PG_relations pg) q3))"
proof (intro conjI impI)
  show "parseNodes pb [] q = Inr q" by simp
next
  assume "tags_wf (PB_stringtable pb) (PBN_keys node) (PBN_vals node)"
  from extractTags_wf [OF this]
  show "parseNodes pb (node # nodes) q = Inl (Panic (PanicMsg ''Please test this first''))"
    by (auto simp: Let_def)
next
  show "\<exists>p. parseNodes pb (node # nodes) q = Inl (Panic p)"
    using extractTags_cases [of "PB_stringtable pb" "PBN_keys node" "PBN_vals node"]
    by (auto simp: Let_def)
next
  assume "PG_nodes pg \<noteq> []"
  then obtain n ns where "PG_nodes pg = n # ns" by (cases "PG_nodes pg") auto
  then show "\<exists>p. parsePrimitiveGroup pb pg q = Inl (Panic p)"
    using extractTags_cases [of "PB_stringtable pb" "PBN_keys n" "PBN_vals n"]
    by (auto simp: parsePrimitiveGroup_def Let_def)
next
  assume "PG_nodes pg = []"
  then show "parsePrimitiveGroup pb pg q =
        (case parseDenseNodes pb (PG_dense pg) q of Inl e \<Rightarrow> Inl e | Inr q2 \<Rightarrow>
         case parseWays pb (PG_ways pg) q2 of Inl e \<Rightarrow> Inl e | Inr q3 \<Rightarrow>
           parseRelations pb (PG_relations pg) q3)"
    by (simp add: parsePrimitiveGroup_def)
qed

text \<open>
  A group with a sparse node and a way, and the same group without the node.
\<close>

theorem sparse_nodes_stop_at_first_entry_witness:
  "tags_wf (PB_stringtable example_block) (PBN_keys example_node) (PBN_vals example_node) \<and>
   parseNodes example_block (example_node # [example_node]) [] =
     Inl (Panic (PanicMsg ''Please test this first'')) \<and>
   PG_nodes (group_of [example_node] [example_way] []) \<noteq> [] \<and>
   (\<exists>p. parsePrimitiveGroup example_block (group_of [example_node] [example_way] []) [] =
          Inl (Panic p)) \<and>
   PG_nodes (group_of [] [example_way] []) = [] \<and>
   parsePrimitiveGroup example_block (group_of [] [example_way] []) [] =
     Inr [EWay \<lparr>Way_ID = 7, Way_Tags = Map.empty, Way_NodeIDs = [100, 101, 102, 101],
                 Way_Timestamp = ZeroTime\<rparr>]"
proof -
  have h: "tags_wf (PB_stringtable example_block) (PBN_keys example_node)
             (PBN_vals example_node)"
    by (simp add: tags_wf_def example_node_def)
  have n1: "PG_nodes (group_of [example_node] [example_way] []) \<noteq> []"
    and n2: "PG_nodes (group_of [] [example_way] []) = []"
    by (simp_all add: group_of_def)
  from sparse_nodes_stop_at_first_entry
         [of example_block "[]" example_node "[example_node]"
             "group_of [example_node] [example_way] []"] h n1
  have a: "parseNodes example_block (example_node # [example_node]) [] =
             Inl (Panic (PanicMsg ''Please test this first''))"
    and b: "\<exists>p. parsePrimitiveGroup example_block (group_of [example_node] [example_way] []) [] =
          Inl (Panic p)"
    by blast+
  from sparse_nodes_stop_at_first_entry
         [of example_block "[]" example_node "[example_node]"
             "group_of [] [example_way] []"] n2
  have c: "parsePrimitiveGroup example_block (group_of [] [example_way] []) [] =
     Inr [EWay \<lparr>Way_ID = 7, Way_Tags = Map.empty, Way_NodeIDs = [100, 101, 102, 101],
                 Way_Timestamp = ZeroTime\<rparr>]"
    by (simp add: group_of_def parseDenseNodes_def GetId_def example_block_def example_way_def
        extractTags_def way_nodeIDs_def info_Time_def Let_def)
  from h n1 n2 a b c show ?thesis by blast
qed

subsection \<open>The header check, the reader and the blobs\<close>

lemma has_capability_iff:
  "has_capability f \<longleftrightarrow> f \<in> {''OsmSchema-V0.6'', ''DenseNodes''}"
  by (auto simp: has_capability_def parseCapabilities_def)

lemma check_features_None:
  "check_features fs = None \<longleftrightarrow> set fs \<subseteq> {''OsmSchema-V0.6'', ''DenseNodes''}"
  by (induction fs) (auto simp: has_capability_iff)

lemma check_features_Some:
  "check_features fs = Some e \<Longrightarrow>
   \<exists>name. e = MissingCapability name \<and> name \<in> set fs \<and>
          name \<notin> {''OsmSchema-V0.6'', ''DenseNodes''}"
  by (induction fs) (auto simp: has_capability_iff split: if_splits)

lemma ReadFull_error:
  "ReadFull r n = (Inl e, r') \<Longrightarrow> e = EOF \<or> e = ErrUnexpectedEOF"
  by (auto simp: ReadFull_def split: if_splits)

lemma ReadFull_ok:
  "ReadFull r n = (Inr buf, r') \<longleftrightarrow>
     n \<le> length (rd_rest r) \<and> buf = take n (rd_rest r) \<and>
     r' = \<lparr>rd_rest = drop n (rd_rest r), rd_pos = rd_pos r + n\<rparr>"
  by (auto simp: ReadFull_def)

lemma readBlobHeaderSize_TooBig:
  "fst (readBlobHeaderSize r) = Inl (Error BlobHeaderSizeTooBig) \<longleftrightarrow>
     4 \<le> length (rd_rest r) \<and> 64 * 1024 \<le> uint (BigEndian_Uint32 (take 4 (rd_rest r)))"
  by (auto simp: readBlobHeaderSize_def ReadFull_def maxBlobHeaderSize_def Let_def)

lemma readBlobHeaderSize_ok:
  "readBlobHeaderSize r = (Inr sz, r1) \<longleftrightarrow>
     4 \<le> length (rd_rest r) \<and> sz = BigEndian_Uint32 (take 4 (rd_rest r)) \<and>
     uint sz < 64 * 1024 \<and>
     r1 = \<lparr>rd_rest = drop 4 (rd_rest r), rd_pos = rd_pos r + 4\<rparr>"
  by (auto simp: readBlobHeaderSize_def ReadFull_def maxBlobHeaderSize_def Let_def)

lemma readBlobHeader_TooBig:
  "fst (readBlobHeader ext r sz) = Inl (Error BlobSizeTooBig) \<longleftrightarrow>
     unat sz \<le> length (rd_rest r) \<and>
     (\<exists>bh. Unmarshal_BlobHeader ext (take (unat sz) (rd_rest r)) = Inr bh \<and>
           32 * 1024 * 1024 \<le> sint (BH_datasize bh))"
  by (auto simp: readBlobHeader_def ReadFull_def maxBlobSize_def split: sum.splits)

lemma readBlob_not_size_error:
  "fst (readBlob ext r bh) \<noteq> Inl (Error BlobSizeTooBig) \<and>
   fst (readBlob ext r bh) \<noteq> Inl (Error BlobHeaderSizeTooBig)"
  by (auto simp: readBlob_def ReadFull_def split: sum.splits)

lemma readBlobHeader_not_header_size_error:
  "fst (readBlobHeader ext r sz) \<noteq> Inl (Error BlobHeaderSizeTooBig)"
  by (auto simp: readBlobHeader_def ReadFull_def split: sum.splits)

lemma readBlobHeaderSize_not_blob_size_error:
  "fst (readBlobHeaderSize r) \<noteq> Inl (Error BlobSizeTooBig)"
  by (auto simp: readBlobHeaderSize_def ReadFull_def Let_def split: sum.splits)

lemma readFileBlock_header_TooBig:
  "fst (readFileBlock ext r) = Inl (Error BlobHeaderSizeTooBig) \<longleftrightarrow>
     fst (readBlobHeaderSize r) = Inl (Error BlobHeaderSizeTooBig)"
  using readBlob_not_size_error readBlobHeader_not_header_size_error
  by (auto simp: readFileBlock_def Let_def split: prod.splits sum.splits)
     (metis fst_conv)+

lemma uint_push_ucast:
  assumes "n \<le> 24"
  shows "uint (push_bit n (ucast (a :: byte)) :: uint32) = uint a * 2 ^ n"
proof -
  have a: "uint a < 2 ^ 8" using uint_bounded [of a] by simp
  have "(2::int) ^ n \<le> 2 ^ 24" using assms by (intro power_increasing) simp_all
  with a have "uint a * 2 ^ n < 2 ^ 8 * 2 ^ 24"
    by (intro mult_less_le_imp_less) simp_all
  then have lt: "uint a * 2 ^ n < 2 ^ 32" by simp
  have "uint (push_bit n (ucast a) :: uint32) = take_bit 32 (push_bit n (uint (ucast a :: uint32)))"
    by (simp add: unsigned_push_bit_eq)
  also have "\<dots> = take_bit 32 (uint a * 2 ^ n)"
    by (simp add: push_bit_eq_mult uint_up_ucast is_up)
  finally have "uint (push_bit n (ucast a) :: uint32) = take_bit 32 (uint a * 2 ^ n)" .
  also have "\<dots> = uint a * 2 ^ n"
    using lt by (simp add: take_bit_int_eq_self)
  finally show ?thesis .
qed

lemma be_disjoint:
  "m + 8 \<le> n \<Longrightarrow> and (push_bit n (ucast (a :: byte)) :: uint32) (push_bit m (ucast (b :: byte))) = 0"
  by (rule bit_word_eqI) (auto simp: bit_simps dest: bit_imp_le_length)

text \<open>
  The four bytes of the length are read most significant byte first.
\<close>

lemma BigEndian_Uint32_value:
  "uint (BigEndian_Uint32 [a, b, c, d]) =
     uint a * 2 ^ 24 + uint b * 2 ^ 16 + uint c * 2 ^ 8 + uint d"
proof -
  let ?A = "push_bit 24 (ucast a) :: uint32" and ?B = "push_bit 16 (ucast b) :: uint32"
  let ?C = "push_bit 8 (ucast c) :: uint32" and ?D = "ucast d :: uint32"
  have D: "?D = push_bit 0 (ucast d)" by simp
  have ab: "and ?A ?B = 0" and ac: "and ?A ?C = 0" and bc: "and ?B ?C = 0"
    by (simp_all add: be_disjoint)
  have ad: "and ?A ?D = 0" and bd: "and ?B ?D = 0" and cd: "and ?C ?D = 0"
    by (subst D, rule be_disjoint, simp)+
  have 1: "or ?A ?B = ?A + ?B" using ab by (simp add: disjunctive_add_eq_or)
  have "and (or ?A ?B) ?C = 0" using ac bc by (simp add: bit.conj_disj_distrib2)
  then have 2: "or (or ?A ?B) ?C = ?A + ?B + ?C"
    using 1 by (simp add: disjunctive_add_eq_or [symmetric])
  have "and (or (or ?A ?B) ?C) ?D = 0" using ad bd cd by (simp add: bit.conj_disj_distrib2)
  then have 3: "or (or (or ?A ?B) ?C) ?D = ?A + ?B + ?C + ?D"
    using 2 by (simp add: disjunctive_add_eq_or [symmetric])
  have a: "uint a < 2 ^ 8" and b: "uint b < 2 ^ 8" and c: "uint c < 2 ^ 8" and d: "uint d < 2 ^ 8"
    using uint_bounded [of a] uint_bounded [of b] uint_bounded [of c] uint_bounded [of d]
    by simp_all
  have uA: "uint ?A = uint a * 2 ^ 24" and uB: "uint ?B = uint b * 2 ^ 16"
    and uC: "uint ?C = uint c * 2 ^ 8"
    by (simp_all add: uint_push_ucast)
  have uD: "uint ?D = uint d" by (simp add: uint_up_ucast is_up)
  have "uint (?A + ?B + ?C + ?D) =
      (uint a * 2 ^ 24 + uint b * 2 ^ 16 + uint c * 2 ^ 8 + uint d) mod 2 ^ 32"
    by (simp add: uint_word_ariths uA uB uC uD mod_simps take_bit_eq_mod)
  also have "\<dots> = uint a * 2 ^ 24 + uint b * 2 ^ 16 + uint c * 2 ^ 8 + uint d"
    using a b c d by (intro mod_pos_pos_trivial) simp_all
  finally show ?thesis using 3 by (simp add: BigEndian_Uint32_def)
qed

lemma readFileBlock_blob_TooBig:
  "fst (readFileBlock ext r) = Inl (Error BlobSizeTooBig) \<longleftrightarrow>
     (\<exists>sz r1. readBlobHeaderSize r = (Inr sz, r1) \<and>
        fst (readBlobHeader ext r1 sz) = Inl (Error BlobSizeTooBig))"
proof (cases "readBlobHeaderSize r")
  case (Pair res r1)
  show ?thesis
  proof (cases res)
    case (Inl e)
    with Pair readBlobHeaderSize_not_blob_size_error [of r] show ?thesis
      by (auto simp: readFileBlock_def Let_def)
  next
    case (Inr sz)
    show ?thesis
    proof (cases "readBlobHeader ext r1 sz")
      case hdr: (Pair res2 r2)
      show ?thesis
      proof (cases res2)
        case (Inl e)
        with Pair Inr hdr show ?thesis by (simp add: readFileBlock_def Let_def)
      next
        case bh: (Inr bh)
        with Pair Inr hdr readBlob_not_size_error [of ext r2 bh] show ?thesis
          by (auto simp: readFileBlock_def Let_def split: prod.splits sum.splits)
      qed
    qed
  qed
qed

text \<open>
  Claim C9. \<open>readFileBlock\<close> fails with the error \<open>"BlobHeader size >= 64Kb"\<close> exactly when
  four bytes could be read and the big-endian length they hold is at least \<open>64 * 1024\<close>; it
  fails with \<open>"Blob size >= 32Mb"\<close> exactly when the BlobHeader could be read and parsed and
  its \<open>datasize\<close> is at least \<open>32 * 1024 * 1024\<close>.
\<close>

theorem oversized_header_and_blob:
  "(fst (readFileBlock ext r) = Inl (Error BlobHeaderSizeTooBig) \<longleftrightarrow>
      4 \<le> length (rd_rest r) \<and>
      64 * 1024 \<le> uint (BigEndian_Uint32 (take 4 (rd_rest r)))) \<and>
   (fst (readFileBlock ext r) = Inl (Error BlobSizeTooBig) \<longleftrightarrow>
      (\<exists>sz r1 bh. readBlobHeaderSize r = (Inr sz, r1) \<and>
         unat sz \<le> length (rd_rest r1) \<and>
         Unmarshal_BlobHeader ext (take (unat sz) (rd_rest r1)) = Inr bh \<and>
         32 * 1024 * 1024 \<le> sint (BH_datasize bh)))"
  by (simp add: readFileBlock_header_TooBig readBlobHeaderSize_TooBig
      readFileBlock_blob_TooBig readBlobHeader_TooBig)

text \<open>
  The boundaries: a length of exactly \<open>64 * 1024\<close> fails and \<open>64 * 1024 - 1\<close> does not fail
  with that error; a \<open>datasize\<close> of exactly \<open>32 * 1024 * 1024\<close> fails and one less does not.
\<close>

theorem oversized_header_and_blob_witness:
  "fst (readFileBlock (sample_extern (header_of ''OSMData'' 0) (features []) example_block)
          \<lparr>rd_rest = [0, 1, 0, 0], rd_pos = 0\<rparr>) = Inl (Error BlobHeaderSizeTooBig) \<and>
   fst (readFileBlock (sample_extern (header_of ''OSMData'' 0) (features []) example_block)
          \<lparr>rd_rest = [0, 0, 255, 255], rd_pos = 0\<rparr>) \<noteq> Inl (Error BlobHeaderSizeTooBig) \<and>
   fst (readFileBlock (sample_extern (header_of ''OSMData'' 33554432) (features []) example_block)
          header_reader) = Inl (Error BlobSizeTooBig) \<and>
   fst (readFileBlock (sample_extern (header_of ''OSMData'' 33554431) (features []) example_block)
          header_reader) \<noteq> Inl (Error BlobSizeTooBig)"
proof -
  let ?ext = "sample_extern (header_of ''OSMData'' 0) (features []) example_block"
  have a: "fst (readFileBlock ?ext \<lparr>rd_rest = [0, 1, 0, 0], rd_pos = 0\<rparr>) =
     Inl (Error BlobHeaderSizeTooBig)"
    using oversized_header_and_blob [of ?ext "\<lparr>rd_rest = [0, 1, 0, 0], rd_pos = 0\<rparr>"]
    by (simp add: BigEndian_Uint32_def)
  have b: "fst (readFileBlock ?ext \<lparr>rd_rest = [0, 0, 255, 255], rd_pos = 0\<rparr>) \<noteq>
     Inl (Error BlobHeaderSizeTooBig)"
    using oversized_header_and_blob [of ?ext "\<lparr>rd_rest = [0, 0, 255, 255], rd_pos = 0\<rparr>"]
    by (simp add: BigEndian_Uint32_def)
  have sz: "readBlobHeaderSize header_reader = (Inr 0, \<lparr>rd_rest = [], rd_pos = 4\<rparr>)"
    by (simp add: readBlobHeaderSize_def ReadFull_def header_reader_def BigEndian_Uint32_def
        maxBlobHeaderSize_def)
  have c: "fst (readFileBlock (sample_extern (header_of ''OSMData'' 33554432) (features [])
              example_block) header_reader) = Inl (Error BlobSizeTooBig)"
    using oversized_header_and_blob [of "sample_extern (header_of ''OSMData'' 33554432)
        (features []) example_block" header_reader] sz
    by (simp add: sample_extern_def header_of_def)
  have d: "fst (readFileBlock (sample_extern (header_of ''OSMData'' 33554431) (features [])
              example_block) header_reader) \<noteq> Inl (Error BlobSizeTooBig)"
    using oversized_header_and_blob [of "sample_extern (header_of ''OSMData'' 33554431)
        (features []) example_block" header_reader] sz
    by (simp add: sample_extern_def header_of_def)
  from a b c d show ?thesis by blast
qed

text \<open>
  Claim C8. When the first file block has been read, \<open>Start(n)\<close> returns the error
  \<open>"unexpected first fileblock of type ..."\<close> if the block's type is not \<open>"OSMHeader"\<close>. When
  the type is \<open>"OSMHeader"\<close> and the payload parses as a HeaderBlock, \<open>Start(n)\<close> returns the
  error \<open>"parser does not have ... capability"\<close> exactly when some required feature is outside
  \<open>{"OsmSchema-V0.6", "DenseNodes"}\<close>; the feature named by the error is such a feature;
  and with only supported features \<open>Start(n)\<close> returns no error and has started the
  pipeline, with \<open>n\<close> data decoders (one when \<open>n < 1\<close>), on the rest of the input.
\<close>

theorem Start_header_checks:
  assumes "readFileBlock ext r = (Inr (blobHeader, blob), pos, r')"
  shows "(BH_type blobHeader \<noteq> ''OSMHeader'' \<longrightarrow>
            Start ext r n = Inl (Error (UnexpectedFirstFileblock (BH_type blobHeader)))) \<and>
         (BH_type blobHeader = ''OSMHeader'' \<and> getData ext blob = Inr data \<and>
          Unmarshal_HeaderBlock ext data = Inr hb \<longrightarrow>
            ((\<exists>name. Start ext r n = Inl (Error (MissingCapability name))) \<longleftrightarrow>
               \<not> set (HB_required_features hb) \<subseteq> {''OsmSchema-V0.6'', ''DenseNodes''}) \<and>
            (\<forall>name. Start ext r n = Inl (Error (MissingCapability name)) \<longrightarrow>
               name \<in> set (HB_required_features hb) \<and>
               name \<notin> {''OsmSchema-V0.6'', ''DenseNodes''}) \<and>
            (set (HB_required_features hb) \<subseteq> {''OsmSchema-V0.6'', ''DenseNodes''} \<longrightarrow>
               Start ext r n = Inr (init (worker_count n) r')))"
proof (intro conjI impI)
  assume "BH_type blobHeader \<noteq> ''OSMHeader''"
  with assms show "Start ext r n =
      Inl (Error (UnexpectedFirstFileblock (BH_type blobHeader)))"
    by (simp add: Start_def Start_header_def)
next
  assume a: "BH_type blobHeader = ''OSMHeader'' \<and> getData ext blob = Inr data \<and>
          Unmarshal_HeaderBlock ext data = Inr hb"
  with assms have eq: "Start ext r n =
      (case check_features (HB_required_features hb) of
         Some err \<Rightarrow> Inl (Error err) | None \<Rightarrow> Inr (init (worker_count n) r'))"
    by (simp add: Start_def Start_header_def decodeOSMHeader_def split: option.splits)
  show "(\<exists>name. Start ext r n = Inl (Error (MissingCapability name))) \<longleftrightarrow>
               \<not> set (HB_required_features hb) \<subseteq> {''OsmSchema-V0.6'', ''DenseNodes''}"
    unfolding eq check_features_None [symmetric]
    using check_features_Some [of "HB_required_features hb"]
    by (cases "check_features (HB_required_features hb)") auto
  show "\<forall>name. Start ext r n = Inl (Error (MissingCapability name)) \<longrightarrow>
               name \<in> set (HB_required_features hb) \<and>
               name \<notin> {''OsmSchema-V0.6'', ''DenseNodes''}"
    unfolding eq using check_features_Some [of "HB_required_features hb"]
    by (cases "check_features (HB_required_features hb)") auto
  show "Start ext r n = Inr (init (worker_count n) r')"
    if "set (HB_required_features hb) \<subseteq> {''OsmSchema-V0.6'', ''DenseNodes''}"
    unfolding eq using that check_features_None [of "HB_required_features hb"] by simp
qed

lemma readFileBlock_sample:
  "sint n < 33554432 \<Longrightarrow> n = 0 \<Longrightarrow>
   readFileBlock (sample_extern (header_of t n) hb pb) header_reader =
     (Inr (header_of t n, \<lparr>Blob_raw = Some [], Blob_raw_size = None, Blob_zlib_data = None\<rparr>),
      0, \<lparr>rd_rest = [], rd_pos = 4\<rparr>)"
  by (simp add: readFileBlock_def readBlobHeaderSize_def ReadFull_def header_reader_def
      BigEndian_Uint32_def maxBlobHeaderSize_def readBlobHeader_def readBlob_def
      sample_extern_def header_of_def maxBlobSize_def Let_def)

text \<open>
  \<open>Start(4)\<close> on a first block of type \<open>"OSMData"\<close>; on a header that requires
  \<open>"HistoricalInformation"\<close>; on a header that requires the two supported features.
\<close>

theorem Start_header_checks_witness:
  "Start (sample_extern (header_of ''OSMData'' 0) (features []) example_block)
          header_reader 4 = Inl (Error (UnexpectedFirstFileblock ''OSMData'')) \<and>
   Start (sample_extern (header_of ''OSMHeader'' 0)
          (features [''OsmSchema-V0.6'', ''HistoricalInformation'']) example_block)
          header_reader 4 = Inl (Error (MissingCapability ''HistoricalInformation'')) \<and>
   Start (sample_extern (header_of ''OSMHeader'' 0)
          (features [''OsmSchema-V0.6'', ''DenseNodes'']) example_block)
          header_reader 4 = Inr (init 4 \<lparr>rd_rest = [], rd_pos = 4\<rparr>)"
proof -
  let ?blob = "\<lparr>Blob_raw = Some [], Blob_raw_size = None, Blob_zlib_data = None\<rparr>"
  let ?r' = "\<lparr>rd_rest = [], rd_pos = 4\<rparr>"
  let ?e1 = "sample_extern (header_of ''OSMData'' 0) (features []) example_block"
  let ?e2 = "sample_extern (header_of ''OSMHeader'' 0)
          (features [''OsmSchema-V0.6'', ''HistoricalInformation'']) example_block"
  let ?e3 = "sample_extern (header_of ''OSMHeader'' 0)
          (features [''OsmSchema-V0.6'', ''DenseNodes'']) example_block"
  have r1: "readFileBlock ?e1 header_reader = (Inr (header_of ''OSMData'' 0, ?blob), 0, ?r')"
    and r2: "readFileBlock ?e2 header_reader = (Inr (header_of ''OSMHeader'' 0, ?blob), 0, ?r')"
    and r3: "readFileBlock ?e3 header_reader = (Inr (header_of ''OSMHeader'' 0, ?blob), 0, ?r')"
    by (simp_all add: readFileBlock_sample)
  have a: "Start ?e1 header_reader 4 = Inl (Error (UnexpectedFirstFileblock ''OSMData''))"
    using Start_header_checks [OF r1, of 4] by (simp add: header_of_def)
  have g2: "BH_type (header_of ''OSMHeader'' 0) = ''OSMHeader'' \<and> getData ?e2 ?blob = Inr [] \<and>
      Unmarshal_HeaderBlock ?e2 [] =
        Inr (features [''OsmSchema-V0.6'', ''HistoricalInformation''])"
    by (simp add: header_of_def getData_def sample_extern_def)
  have g3: "BH_type (header_of ''OSMHeader'' 0) = ''OSMHeader'' \<and> getData ?e3 ?blob = Inr [] \<and>
      Unmarshal_HeaderBlock ?e3 [] = Inr (features [''OsmSchema-V0.6'', ''DenseNodes''])"
    by (simp add: header_of_def getData_def sample_extern_def)
  let ?f2 = "features [''OsmSchema-V0.6'', ''HistoricalInformation'']"
  let ?f3 = "features [''OsmSchema-V0.6'', ''DenseNodes'']"
  note t2 = Start_header_checks [OF r2, of 4 "[]" ?f2]
  have ns: "\<not> set (HB_required_features ?f2) \<subseteq> {''OsmSchema-V0.6'', ''DenseNodes''}"
    by (simp add: features_def)
  from t2 g2 ns obtain name where
    nm: "Start ?e2 header_reader 4 = Inl (Error (MissingCapability name))"
    by meson
  from t2 g2 nm have "name \<in> set (HB_required_features ?f2) \<and>
      name \<notin> {''OsmSchema-V0.6'', ''DenseNodes''}"
    by meson
  then have "name = ''HistoricalInformation''"
    unfolding features_def by (elim conjE) force
  with nm have b: "Start ?e2 header_reader 4 =
      Inl (Error (MissingCapability ''HistoricalInformation''))"
    by simp
  note t3 = Start_header_checks [OF r3, of 4 "[]" ?f3]
  have ss: "set (HB_required_features ?f3) \<subseteq> {''OsmSchema-V0.6'', ''DenseNodes''}"
    by (simp add: features_def)
  from t3 g3 ss have "Start ?e3 header_reader 4 = Inr (init (worker_count 4) ?r')"
    by meson
  then have c: "Start ?e3 header_reader 4 = Inr (init 4 ?r')"
    by (simp add: worker_count_def)
  from a b c show ?thesis by (intro conjI)
qed

text \<open>
  Claim C6 says that a blob with \<open>zlib_data\<close> fails with an error exactly when the
  decompressed length differs from \<open>raw_size\<close>. The source allocates the buffer with capacity
  \<open>raw_size + 512\<close>, an \<open>int32\<close>, before it reads and compares: with \<open>raw_size = -513\<close> the
  capacity is negative and \<open>getData\<close> ends in a run-time panic instead of the error.
\<close>

theorem getData_negative_capacity_panics:
  "getData (sample_extern (header_of ''OSMData'' 0) (features []) example_block)
     \<lparr>Blob_raw = None, Blob_raw_size = Some (- 513), Blob_zlib_data = Some [120, 156]\<rparr> =
     Inl (Panic MakesliceOutOfRange)"
  by (simp add: getData_def sample_extern_def GetRawSize_def bytes_MinRead_def)

lemma sint_plus_512_negative:
  "sint (x + 512 :: int32) < 0 \<longleftrightarrow> sint x < - 512 \<or> 2147483136 \<le> sint x"
proof -
  have r: "- (2 ^ 31) \<le> sint x" "sint x < 2 ^ 31"
    using sint_ge [of x] sint_lt [of x] by simp_all
  have "sint (x + 512) = signed_take_bit 31 (sint x + 512)"
    by (simp add: sint_word_ariths)
  also have "\<dots> = (sint x + 512 + 2 ^ 31) mod 2 ^ 32 - 2 ^ 31"
    by (simp add: signed_take_bit_eq_take_bit_shift take_bit_eq_mod)
  finally have eq: "sint (x + 512) = (sint x + 512 + 2 ^ 31) mod 2 ^ 32 - 2 ^ 31" .
  show ?thesis
  proof (cases "sint x + 512 < 2 ^ 31")
    case True
    with r have "(sint x + 512 + 2 ^ 31) mod 2 ^ 32 = sint x + 512 + 2 ^ 31"
      by (intro mod_pos_pos_trivial) simp_all
    with eq True show ?thesis by auto
  next
    case False
    with r have "(sint x + 512 + 2 ^ 31) mod 2 ^ 32 = sint x + 512 + 2 ^ 31 - 2 ^ 32"
      by (subst mod_pos_geq) (simp_all add: mod_pos_pos_trivial)
    with eq False r show ?thesis by auto
  qed
qed

text \<open>
  For every other \<open>raw_size\<close>, that is from \<open>-512\<close> to \<open>2^31 - 513\<close>, \<open>getData\<close> returns the
  raw bytes when present; else, with \<open>zlib_data\<close>, the decompressed bytes when their length
  is \<open>raw_size\<close> and the size error when it is not; else the error \<open>"unknown blob data"\<close>.
\<close>

lemma getData_cases:
  "getData ext blob =
     (case Blob_raw blob of Some raw \<Rightarrow> Inr raw
      | None \<Rightarrow>
        (case Blob_zlib_data blob of None \<Rightarrow> Inl (Error UnknownBlobData)
         | Some z \<Rightarrow>
           (case zlib_NewReader ext z of Some m \<Rightarrow> Inl (Error (LibraryError m))
            | None \<Rightarrow>
              if sint (GetRawSize blob) < - 512 \<or> 2147483136 \<le> sint (GetRawSize blob)
              then Inl (Panic MakesliceOutOfRange)
              else (case zlib_ReadAll ext z of Inl m \<Rightarrow> Inl (Error (LibraryError m))
                    | Inr buf \<Rightarrow>
                        if int (length buf) = sint (GetRawSize blob) then Inr buf
                        else Inl (Error (RawSizeMismatch (length buf)
                                           (sint (GetRawSize blob))))))))"
  by (simp add: getData_def bytes_MinRead_def sint_plus_512_negative
      split: option.splits sum.splits)

subsection \<open>The pipeline: invariants\<close>

declare reader_pairs.simps [simp del]

lemma ReadFull_rest:
  "ReadFull r n = (Inr buf, r') \<Longrightarrow> length (rd_rest r') = length (rd_rest r) - n \<and> n \<le> length (rd_rest r)"
  by (auto simp: ReadFull_def split: if_splits)

lemma readFileBlock_consumes:
  assumes "readFileBlock ext r = (Inr x, pos, r')"
  shows "length (rd_rest r') < length (rd_rest r)"
proof -
  from assms obtain sz r1 where r1: "readBlobHeaderSize r = (Inr sz, r1)"
    by (auto simp: readFileBlock_def Let_def split: prod.splits sum.splits)
  from assms r1 obtain bh r2 where r2: "readBlobHeader ext r1 sz = (Inr bh, r2)"
    by (auto simp: readFileBlock_def Let_def split: prod.splits sum.splits)
  from assms r1 r2 obtain blob where r3: "readBlob ext r2 bh = (Inr blob, r')"
    by (auto simp: readFileBlock_def Let_def split: prod.splits sum.splits)
  from r1 have "length (rd_rest r1) < length (rd_rest r)"
    by (auto simp: readBlobHeaderSize_def ReadFull_def Let_def split: if_splits)
  moreover from r2 have "length (rd_rest r2) \<le> length (rd_rest r1)"
    by (auto simp: readBlobHeader_def Let_def split: prod.splits sum.splits if_splits
        dest!: ReadFull_rest)
  moreover from r3 have "length (rd_rest r') \<le> length (rd_rest r2)"
    by (auto simp: readBlob_def Let_def split: prod.splits sum.splits if_splits
        dest!: ReadFull_rest)
  ultimately show ?thesis by simp
qed

lemma residue_unique:
  assumes "J \<le> k" and "k < J + n" and "k mod n = J mod n"
  shows "k = (J::nat)"
proof -
  from assms(1,3) have "n dvd k - J"
    by (metis mod_eq_dvd_iff_nat)
  moreover from assms(1,2) have "k - J < n" by simp
  ultimately have "k - J = 0"
    using dvd_imp_le by fastforce
  with assms(1) show ?thesis by simp
qed

lemma inv_ser_frame:
  "p_sst s' = p_sst s \<Longrightarrow> p_decoded s' = p_decoded s \<Longrightarrow> p_serializer s' = p_serializer s \<Longrightarrow>
   p_closed s' = p_closed s \<Longrightarrow> inv_ser ext n P J s' = inv_ser ext n P J s"
  by (simp add: inv_ser_def)

lemma inv_reader_frame:
  "p_rst s' = p_rst s \<Longrightarrow> p_reader s' = p_reader s \<Longrightarrow>
   inv_reader ext n P c K s' = inv_reader ext n P c K s"
  by (simp add: inv_reader_def)

lemma inv_workers_frame:
  "p_workers s' = p_workers s \<Longrightarrow> p_rst s' = p_rst s \<Longrightarrow>
   inv_workers ext n P K J s' = inv_workers ext n P K J s"
  by (simp add: inv_workers_def input_closed_def)

lemma inv_ser_frameI:
  assumes "inv_ser ext n P J s" and "p_sst s' = p_sst s" and "p_decoded s' = p_decoded s"
    and "p_serializer s' = p_serializer s" and "p_closed s' = p_closed s"
  shows "inv_ser ext n P J s'"
  using assms(1) inv_ser_frame [OF assms(2-5), of ext n P J] by blast

lemma inv_reader_frameI:
  assumes "inv_reader ext n P c K s" and "p_rst s' = p_rst s" and "p_reader s' = p_reader s"
  shows "inv_reader ext n P c K s'"
  using assms(1) inv_reader_frame [OF assms(2,3), of ext n P c K] by blast

lemma inv_workers_frameI:
  assumes "inv_workers ext n P K J s" and "p_workers s' = p_workers s" and "p_rst s' = p_rst s"
  shows "inv_workers ext n P K J s'"
  using assms(1) inv_workers_frame [OF assms(2,3), of ext n P K J] by blast

lemma worker_body_error [simp]:
  "worker_body ext (i, pos, Some e) = Inr (None, pos, Some e)"
  by (simp add: worker_body_def split: option.splits)

lemma inv_init:
  assumes "0 < n" and "reader_pairs ext r = (P, c)"
  shows "inv_at ext n P c 0 0 (init n r)"
  using assms
  by (simp add: inv_at_def inv_reader_def inv_workers_def inv_ser_def init_def ok_upto_def
      flat_def)

lemma drop_eq_ConsD:
  "drop K P = x # xs \<Longrightarrow> K < length P \<and> P ! K = x \<and> drop (Suc K) P = xs"
  by (metis Cons_nth_drop_Suc drop_eq_Nil2 list.distinct(1) list.inject not_le_imp_less)

lemma reader_pairs_cases:
  assumes "reader_pairs ext r = (ps, c)"
  obtains
    (panic) pn pos r' where "readFileBlock ext r = (Inl (Panic pn), pos, r')"
      "ps = []" "c = Some pn"
      "\<And>i s. p_reader s = r \<Longrightarrow> reader_read ext i s = s\<lparr>p_panic := Some pn\<rparr>"
  | (error) e pos r' where "ps = [(None, pos, Some e)]" "c = None"
      "\<And>i s. p_reader s = r \<Longrightarrow>
         reader_read ext i s = s\<lparr>p_reader := r', p_rst := RSend i (None, pos, Some e)\<rparr>"
  | (block) blob pos r' ps' where "ps = (Some blob, pos, None) # ps'"
      "reader_pairs ext r' = (ps', c)"
      "length (rd_rest r') < length (rd_rest r)"
      "\<And>i s. p_reader s = r \<Longrightarrow>
         reader_read ext i s = s\<lparr>p_reader := r', p_rst := RSend i (Some blob, pos, None)\<rparr>"
proof (cases "readFileBlock ext r")
  case (fields res pos r')
  show ?thesis
  proof (cases res)
    case (Inl f)
    show ?thesis
    proof (cases f)
      case (Error e)
      with Inl fields assms show ?thesis
        by (intro error [of pos e r']) (simp_all add: reader_pairs.simps reader_read_def)
    next
      case (Panic pn)
      with Inl fields assms show ?thesis
        by (intro panic [of pn pos r']) (simp_all add: reader_pairs.simps reader_read_def)
    qed
  next
    case (Inr hb)
    obtain bh blob where hb: "hb = (bh, blob)" by (cases hb)
    show ?thesis
    proof (cases "BH_type bh = ''OSMData''")
      case True
      obtain ps' c' where rec: "reader_pairs ext r' = (ps', c')"
        by (cases "reader_pairs ext r'")
      moreover from Inr hb fields have "length (rd_rest r') < length (rd_rest r)"
        by (intro readFileBlock_consumes [of ext r hb pos r']) simp
      ultimately show ?thesis using True Inr hb fields assms
        by (intro block [of blob pos ps' r']) (simp_all add: reader_pairs.simps reader_read_def)
    next
      case False
      with Inr hb fields assms show ?thesis
        by (intro error [of pos "UnexpectedFileblock (BH_type bh)" r'])
           (simp_all add: reader_pairs.simps reader_read_def)
    qed
  qed
qed

lemma inv_workers_no_Done:
  assumes "inv_workers ext n P K J s" and "\<forall>w. \<not> input_closed s w"
    and "p_workers s' = p_workers s"
  shows "inv_workers ext n P K J s'"
  using assms unfolding inv_workers_def by auto

lemma inv_read:
  assumes pipeline_inv: "inv_at ext n P c K J s" and rst: "p_rst s = RRead i"
  shows "inv_at ext n P c K J (reader_read ext i s)"
proof -
  from pipeline_inv have R: "inv_reader ext n P c K s" and W: "inv_workers ext n P K J s"
    and S: "inv_ser ext n P J s" by (simp_all add: inv_at_def)
  from R rst have i: "i = K mod n" and rp: "reader_pairs ext (p_reader s) = (drop K P, c)"
    and noerr: "\<forall>k<K. pair_e (P ! k) = None"
    by (simp_all add: inv_reader_def)
  from rst have nocl: "\<forall>w. \<not> input_closed s w" by (simp add: input_closed_def)
  from rp show ?thesis
  proof (cases rule: reader_pairs_cases)
    case (panic pn pos r')
    then have eq: "reader_read ext i s = s\<lparr>p_panic := Some pn\<rparr>" by simp
    show ?thesis
      unfolding eq inv_at_def
      using R W S
      by (simp add: inv_reader_frame [of "s\<lparr>p_panic := Some pn\<rparr>" s]
          inv_workers_frame [of "s\<lparr>p_panic := Some pn\<rparr>" s]
          inv_ser_frame [of "s\<lparr>p_panic := Some pn\<rparr>" s])
  next
    case (error e pos r')
    let ?s' = "s\<lparr>p_reader := r', p_rst := RSend i (None, pos, Some e)\<rparr>"
    from error have eq: "reader_read ext i s = ?s'" by simp
    from error(1) have K: "K < length P" "P ! K = (None, pos, Some e)" "Suc K = length P"
      using drop_eq_ConsD [of K P] by auto
    have "inv_reader ext n P c K ?s'"
      using i K noerr by (simp add: inv_reader_def pair_e_def)
    moreover have "inv_workers ext n P K J ?s'"
      using W nocl by (rule inv_workers_no_Done) simp
    moreover have "inv_ser ext n P J ?s'"
      using S by (rule inv_ser_frameI) simp_all
    ultimately show ?thesis unfolding eq inv_at_def by simp
  next
    case (block blob pos r' ps')
    let ?s' = "s\<lparr>p_reader := r', p_rst := RSend i (Some blob, pos, None)\<rparr>"
    from block have eq: "reader_read ext i s = ?s'" by simp
    from block(1) have K: "K < length P" "P ! K = (Some blob, pos, None)"
      "drop (Suc K) P = ps'"
      using drop_eq_ConsD [of K P] by auto
    have "inv_reader ext n P c K ?s'"
      using i K noerr block(2) by (simp add: inv_reader_def pair_e_def)
    moreover have "inv_workers ext n P K J ?s'"
      using W nocl by (rule inv_workers_no_Done) simp
    moreover have "inv_ser ext n P J ?s'"
      using S by (rule inv_ser_frameI) simp_all
    ultimately show ?thesis unfolding eq inv_at_def by simp
  qed
qed

lemma inv_send:
  assumes n: "0 < n" and pipeline_inv: "inv_at ext n P c K J s" and rst: "p_rst s = RSend i p"
    and idle: "p_workers s ! i = WIdle"
  shows "inv_at ext n P c (Suc K) J
           (s\<lparr>p_workers := (p_workers s)[i := WBusy p],
              p_rst := (if pair_e p = None then RRead ((i + 1) mod n) else RClose 0)\<rparr>)"
    (is "inv_at ext n P c (Suc K) J ?s'")
proof -
  from pipeline_inv have R: "inv_reader ext n P c K s" and W: "inv_workers ext n P K J s"
    and S: "inv_ser ext n P J s" by (simp_all add: inv_at_def)
  from R rst have i: "i = K mod n" and K: "K < length P" and p: "p = P ! K"
    and noerr: "\<forall>k<K. pair_e (P ! k) = None"
    and rp: "pair_e p = None \<longrightarrow> reader_pairs ext (p_reader s) = (drop (Suc K) P, c)"
    and last: "pair_e p \<noteq> None \<longrightarrow> Suc K = length P"
    unfolding inv_reader_def by blast+
  from W have len: "length (p_workers s) = n" and JK: "J \<le> K" "K \<le> J + n"
    and hold: "\<forall>k. J \<le> k \<and> k < K \<longrightarrow> holds ext (p_workers s ! (k mod n)) (P ! k)"
    and free: "\<forall>w<n. (\<forall>k. J \<le> k \<and> k < K \<longrightarrow> k mod n \<noteq> w) \<longrightarrow>
          p_workers s ! w = WIdle \<or> p_workers s ! w = WDone"
    and dne: "\<forall>w<n. p_workers s ! w = WDone \<longrightarrow> input_closed s w"
    by (simp_all add: inv_workers_def)
  from i n have i_lt: "i < n" by simp
  have other: "k mod n \<noteq> i" if "J \<le> k" "k < K" for k
  proof
    assume "k mod n = i"
    with hold that idle show False by auto
  qed
  have KJ: "K < J + n"
  proof (rule ccontr)
    assume "\<not> K < J + n"
    with JK have "K = J + n" by simp
    then have "J mod n = i" "J < K" using i n by simp_all
    with other [of J] show False by simp
  qed
  from rst have nocl: "\<forall>w. \<not> input_closed s w" by (simp add: input_closed_def)
  with dne have nodone: "\<forall>w<n. p_workers s ! w \<noteq> WDone" by blast
  have R': "inv_reader ext n P c (Suc K) ?s'"
  proof (cases "pair_e p = None")
    case True
    with rp noerr p i K show ?thesis
      by (auto simp: inv_reader_def mod_Suc_eq less_Suc_eq)
  next
    case False
    with last have "length P = Suc K" by simp
    with False p show ?thesis
      by (auto simp: inv_reader_def)
  qed
  have hold': "holds ext (p_workers ?s' ! (k mod n)) (P ! k)" if "J \<le> k" "k < Suc K" for k
  proof (cases "k = K")
    case True
    with i i_lt len p show ?thesis by simp
  next
    case False
    with that have "k < K" by simp
    with that other [of k] hold show ?thesis by simp
  qed
  have free': "p_workers ?s' ! w = WIdle \<or> p_workers ?s' ! w = WDone"
    if "w < n" "\<forall>k. J \<le> k \<and> k < Suc K \<longrightarrow> k mod n \<noteq> w" for w
  proof -
    from that(2) JK have "w \<noteq> i" using i by auto
    moreover from that(2) have "\<forall>k. J \<le> k \<and> k < K \<longrightarrow> k mod n \<noteq> w" by auto
    ultimately show ?thesis using free that(1) by simp
  qed
  have dne': "input_closed ?s' w" if "w < n" "p_workers ?s' ! w = WDone" for w
  proof -
    from that nodone len have False by (cases "w = i") auto
    then show ?thesis ..
  qed
  have W': "inv_workers ext n P (Suc K) J ?s'"
    unfolding inv_workers_def
    using len JK KJ K hold' free' dne' by auto
  have S': "inv_ser ext n P J ?s'"
    using S by (rule inv_ser_frameI) simp_all
  from R' W' S' show ?thesis by (simp add: inv_at_def)
qed

lemma inv_close_input:
  assumes pipeline_inv: "inv_at ext n P c K J s" and rst: "p_rst s = RClose k"
  shows "inv_at ext n P c K J (s\<lparr>p_rst := (if k < n then RClose (Suc k) else RDone)\<rparr>)"
    (is "inv_at ext n P c K J ?s'")
proof -
  from pipeline_inv have R: "inv_reader ext n P c K s" and W: "inv_workers ext n P K J s"
    and S: "inv_ser ext n P J s" by (simp_all add: inv_at_def)
  have R': "inv_reader ext n P c K ?s'"
    using R rst by (auto simp: inv_reader_def)
  have mono: "input_closed s w \<Longrightarrow> input_closed ?s' w" for w
    using rst by (auto simp: input_closed_def)
  have W': "inv_workers ext n P K J ?s'"
    using W mono unfolding inv_workers_def by auto
  have S': "inv_ser ext n P J ?s'"
    using S by (rule inv_ser_frameI) simp_all
  from R' W' S' show ?thesis by (simp add: inv_at_def)
qed

lemma inv_panic:
  assumes "inv_at ext n P c K J s"
  shows "inv_at ext n P c K J (s\<lparr>p_panic := Some pn\<rparr>)"
  using assms
  by (simp add: inv_at_def inv_reader_frame [of "s\<lparr>p_panic := Some pn\<rparr>" s]
      inv_workers_frame [of "s\<lparr>p_panic := Some pn\<rparr>" s]
      inv_ser_frame [of "s\<lparr>p_panic := Some pn\<rparr>" s])

lemma inv_work:
  assumes n: "0 < n" and pipeline_inv: "inv_at ext n P c K J s" and w: "w < length (p_workers s)"
    and busy: "p_workers s ! w = WBusy p"
  shows "inv_at ext n P c K J
           (case worker_body ext p of
              Inl pn \<Rightarrow> s\<lparr>p_panic := Some pn\<rparr>
            | Inr q \<Rightarrow> s\<lparr>p_workers := (p_workers s)[w := WSend q]\<rparr>)"
proof (cases "worker_body ext p")
  case (Inl pn)
  with pipeline_inv show ?thesis by (simp add: inv_panic)
next
  case (Inr q)
  let ?s' = "s\<lparr>p_workers := (p_workers s)[w := WSend q]\<rparr>"
  from pipeline_inv have R: "inv_reader ext n P c K s" and W: "inv_workers ext n P K J s"
    and S: "inv_ser ext n P J s" by (simp_all add: inv_at_def)
  from W have len: "length (p_workers s) = n" and JK: "J \<le> K" "K \<le> J + n" "K \<le> length P"
    and hold: "\<forall>k. J \<le> k \<and> k < K \<longrightarrow> holds ext (p_workers s ! (k mod n)) (P ! k)"
    and free: "\<forall>w<n. (\<forall>k. J \<le> k \<and> k < K \<longrightarrow> k mod n \<noteq> w) \<longrightarrow>
          p_workers s ! w = WIdle \<or> p_workers s ! w = WDone"
    and dne: "\<forall>w<n. p_workers s ! w = WDone \<longrightarrow> input_closed s w"
    by (simp_all add: inv_workers_def)
  have hold': "holds ext (p_workers ?s' ! (k mod n)) (P ! k)" if "J \<le> k" "k < K" for k
  proof (cases "k mod n = w")
    case True
    with hold that busy have "p = P ! k" by auto
    with True w Inr show ?thesis by simp
  next
    case False
    with hold that show ?thesis by simp
  qed
  have free': "p_workers ?s' ! v = WIdle \<or> p_workers ?s' ! v = WDone"
    if "v < n" "\<forall>k. J \<le> k \<and> k < K \<longrightarrow> k mod n \<noteq> v" for v
  proof -
    from free that busy have "v \<noteq> w" by auto
    with free that show ?thesis by simp
  qed
  have dne': "input_closed ?s' v" if "v < n" "p_workers ?s' ! v = WDone" for v
  proof -
    from that w have "v \<noteq> w" by auto
    with that dne show ?thesis by (simp add: input_closed_def)
  qed
  have W': "inv_workers ext n P K J ?s'"
    unfolding inv_workers_def using len JK hold' free' dne' by auto
  have "inv_reader ext n P c K ?s'"
    using R by (rule inv_reader_frameI) simp_all
  moreover have "inv_ser ext n P J ?s'"
    using S by (rule inv_ser_frameI) simp_all
  ultimately show ?thesis using W' Inr by (simp add: inv_at_def)
qed

lemma inv_worker_exit:
  assumes pipeline_inv: "inv_at ext n P c K J s" and w: "w < length (p_workers s)"
    and idle: "p_workers s ! w = WIdle" and cl: "input_closed s w"
  shows "inv_at ext n P c K J (s\<lparr>p_workers := (p_workers s)[w := WDone]\<rparr>)"
    (is "inv_at ext n P c K J ?s'")
proof -
  from pipeline_inv have R: "inv_reader ext n P c K s" and W: "inv_workers ext n P K J s"
    and S: "inv_ser ext n P J s" by (simp_all add: inv_at_def)
  from W have len: "length (p_workers s) = n" and JK: "J \<le> K" "K \<le> J + n" "K \<le> length P"
    and hold: "\<forall>k. J \<le> k \<and> k < K \<longrightarrow> holds ext (p_workers s ! (k mod n)) (P ! k)"
    and free: "\<forall>w<n. (\<forall>k. J \<le> k \<and> k < K \<longrightarrow> k mod n \<noteq> w) \<longrightarrow>
          p_workers s ! w = WIdle \<or> p_workers s ! w = WDone"
    and dne: "\<forall>w<n. p_workers s ! w = WDone \<longrightarrow> input_closed s w"
    by (simp_all add: inv_workers_def)
  have hold': "holds ext (p_workers ?s' ! (k mod n)) (P ! k)" if "J \<le> k" "k < K" for k
  proof -
    from hold that idle have "k mod n \<noteq> w" by auto
    with hold that show ?thesis by simp
  qed
  have free': "p_workers ?s' ! v = WIdle \<or> p_workers ?s' ! v = WDone"
    if "v < n" "\<forall>k. J \<le> k \<and> k < K \<longrightarrow> k mod n \<noteq> v" for v
    using free that w by (cases "v = w") simp_all
  have dne': "input_closed ?s' v" if "v < n" "p_workers ?s' ! v = WDone" for v
    using that dne cl w by (cases "v = w") (simp_all add: input_closed_def)
  have W': "inv_workers ext n P K J ?s'"
    unfolding inv_workers_def using len JK hold' free' dne' by auto
  have "inv_reader ext n P c K ?s'"
    using R by (rule inv_reader_frameI) simp_all
  moreover have "inv_ser ext n P J ?s'"
    using S by (rule inv_ser_frameI) simp_all
  ultimately show ?thesis using W' by (simp add: inv_at_def)
qed

lemma flat_Suc:
  "J < length P \<Longrightarrow>
   flat ext P (Suc J) =
     flat ext P J @ (case worker_body ext (P ! J) of Inl pn \<Rightarrow> [] | Inr q \<Rightarrow> emitted_of q)"
  by (simp add: flat_def take_Suc_conv_app_nth)

lemma ok_upto_Suc:
  "ok_upto ext P (Suc J) \<longleftrightarrow>
     ok_upto ext P J \<and> (\<exists>q. worker_body ext (P ! J) = Inr q \<and> pair_e q = None)"
  by (auto simp: ok_upto_def less_Suc_eq)

lemma holding_is_next:
  assumes n: "0 < n" and W: "inv_workers ext n P K J s"
    and st: "p_workers s ! (J mod n) \<noteq> WIdle" "p_workers s ! (J mod n) \<noteq> WDone"
  shows "J < K \<and> holds ext (p_workers s ! (J mod n)) (P ! J)"
proof -
  from W have JK: "J \<le> K" "K \<le> J + n"
    and hold: "\<forall>k. J \<le> k \<and> k < K \<longrightarrow> holds ext (p_workers s ! (k mod n)) (P ! k)"
    and free: "\<forall>w<n. (\<forall>k. J \<le> k \<and> k < K \<longrightarrow> k mod n \<noteq> w) \<longrightarrow>
          p_workers s ! w = WIdle \<or> p_workers s ! w = WDone"
    by (simp_all add: inv_workers_def)
  from n have "J mod n < n" by simp
  with free st obtain k where k: "J \<le> k" "k < K" "k mod n = J mod n" by blast
  with JK have "k = J" by (intro residue_unique [of J k n]) simp_all
  with k hold show ?thesis by simp
qed

lemma not_holding_is_empty:
  assumes n: "0 < n" and W: "inv_workers ext n P K J s"
    and st: "p_workers s ! (J mod n) = WIdle \<or> p_workers s ! (J mod n) = WDone"
  shows "J = K"
proof (rule ccontr)
  assume "J \<noteq> K"
  with W have "J < K" by (simp add: inv_workers_def)
  with W have "holds ext (p_workers s ! (J mod n)) (P ! J)" by (simp add: inv_workers_def)
  with st show False by auto
qed

lemma inv_recv:
  assumes n: "0 < n" and pipeline_inv: "inv_at ext n P c K J s" and sst: "p_sst s = SRecv j"
    and snd: "p_workers s ! j = WSend (i, pos, e)"
  shows "inv_at ext n P c K (Suc J)
           (s\<lparr>p_workers := (p_workers s)[j := WIdle],
              p_sst := SEmit ((j + 1) mod n) (payload i) pos e\<rparr>)"
    (is "inv_at ext n P c K (Suc J) ?s'")
proof -
  from pipeline_inv have R: "inv_reader ext n P c K s" and W: "inv_workers ext n P K J s"
    and S: "inv_ser ext n P J s" by (simp_all add: inv_at_def)
  from S sst have j: "j = J mod n" and ok: "ok_upto ext P J"
    and dec: "p_decoded s @ p_serializer s = flat ext P J" and ncl: "\<not> p_closed s"
    by (simp_all add: inv_ser_def)
  from W have len: "length (p_workers s) = n" and JK: "J \<le> K" "K \<le> J + n" "K \<le> length P"
    and hold: "\<forall>k. J \<le> k \<and> k < K \<longrightarrow> holds ext (p_workers s ! (k mod n)) (P ! k)"
    and free: "\<forall>w<n. (\<forall>k. J \<le> k \<and> k < K \<longrightarrow> k mod n \<noteq> w) \<longrightarrow>
          p_workers s ! w = WIdle \<or> p_workers s ! w = WDone"
    and dne: "\<forall>w<n. p_workers s ! w = WDone \<longrightarrow> input_closed s w"
    by (simp_all add: inv_workers_def)
  from j n have j_lt: "j < n" by simp
  from holding_is_next [OF n W] snd j
  have JltK: "J < K" and wb: "worker_body ext (P ! J) = Inr (i, pos, e)" by simp_all
  have other: "k mod n \<noteq> j" if "Suc J \<le> k" "k < K" for k
  proof
    assume "k mod n = j"
    with that JK j have "k = J" by (intro residue_unique [of J k n]) simp_all
    with that show False by simp
  qed
  have hold': "holds ext (p_workers ?s' ! (k mod n)) (P ! k)" if "Suc J \<le> k" "k < K" for k
    using hold that other [of k] by simp
  have free': "p_workers ?s' ! w = WIdle \<or> p_workers ?s' ! w = WDone"
    if "w < n" "\<forall>k. Suc J \<le> k \<and> k < K \<longrightarrow> k mod n \<noteq> w" for w
  proof (cases "w = j")
    case True
    with j_lt len show ?thesis by simp
  next
    case False
    with that(2) j have "\<forall>k. J \<le> k \<and> k < K \<longrightarrow> k mod n \<noteq> w"
      by (metis Suc_leI le_neq_implies_less)
    with free that(1) False show ?thesis by simp
  qed
  have dne': "input_closed ?s' w" if "w < n" "p_workers ?s' ! w = WDone" for w
    using that dne j_lt len by (cases "w = j") (simp_all add: input_closed_def)
  have W': "inv_workers ext n P K (Suc J) ?s'"
    unfolding inv_workers_def using len JK JltK hold' free' dne' by auto
  have R': "inv_reader ext n P c K ?s'"
    using R by (rule inv_reader_frameI) simp_all
  have em: "emitted_of (Some (payload i), pos, e) = emitted_of (i, pos, e)"
    by (simp add: emitted_of_def payload_def)
  have S': "inv_ser ext n P (Suc J) ?s'"
    unfolding inv_ser_def
    using j ok dec ncl wb JltK JK
    by (simp add: mod_Suc_eq flat_Suc em)
  from R' W' S' show ?thesis by (simp add: inv_at_def)
qed

lemma recv_closed_unreachable:
  assumes n: "0 < n" and pipeline_inv: "inv_at ext n P c K J s" and sst: "p_sst s = SRecv j"
    and dn: "p_workers s ! j = WDone"
  shows False
proof -
  from pipeline_inv have R: "inv_reader ext n P c K s" and W: "inv_workers ext n P K J s"
    and S: "inv_ser ext n P J s" by (simp_all add: inv_at_def)
  from S sst have j: "j = J mod n" and ok: "ok_upto ext P J"
    by (simp_all add: inv_ser_def)
  from j n have "j < n" by simp
  with W dn have "input_closed s j" by (simp add: inv_workers_def)
  then have "p_rst s = RDone \<or> (\<exists>k. p_rst s = RClose k)"
    by (auto simp: input_closed_def split: rstate.splits)
  with R have K: "K = length P" "0 < K" "pair_e (P ! (K - 1)) \<noteq> None"
    unfolding inv_reader_def by blast+
  from not_holding_is_empty [OF n W] dn j have "J = K" by simp
  with ok K obtain q where "worker_body ext (P ! (K - 1)) = Inr q" "pair_e q = None"
    unfolding ok_upto_def by (metis diff_less zero_less_one)
  with K(3) show False
    by (cases "P ! (K - 1)") (auto simp: pair_e_def)
qed

lemma inv_emit:
  assumes pipeline_inv: "inv_at ext n P c K J s" and sst: "p_sst s = SEmit j (obj # objs) pos e"
  shows "inv_at ext n P c K J
           (s\<lparr>p_serializer := p_serializer s @ [(Some obj, pos, None)],
              p_sst := SEmit j objs pos e\<rparr>)"
    (is "inv_at ext n P c K J ?s'")
proof -
  from pipeline_inv have R: "inv_reader ext n P c K s" and W: "inv_workers ext n P K J s"
    and S: "inv_ser ext n P J s" by (simp_all add: inv_at_def)
  have "inv_ser ext n P J ?s'"
    using S sst unfolding inv_ser_def by (auto simp: emitted_of_def payload_def)
  moreover have "inv_reader ext n P c K ?s'"
    using R by (rule inv_reader_frameI) simp_all
  moreover have "inv_workers ext n P K J ?s'"
    using W by (rule inv_workers_frameI) simp_all
  ultimately show ?thesis by (simp add: inv_at_def)
qed

lemma inv_ser_only:
  assumes pipeline_inv: "inv_at ext n P c K J s" and S': "inv_ser ext n P J s'"
    and eq: "p_rst s' = p_rst s" "p_reader s' = p_reader s" "p_workers s' = p_workers s"
  shows "inv_at ext n P c K J s'"
proof -
  from pipeline_inv have R: "inv_reader ext n P c K s" and W: "inv_workers ext n P K J s"
    by (simp_all add: inv_at_def)
  from R have "inv_reader ext n P c K s'" by (rule inv_reader_frameI) (simp_all add: eq)
  moreover from W have "inv_workers ext n P K J s'"
    by (rule inv_workers_frameI) (simp_all add: eq)
  ultimately show ?thesis using S' by (simp add: inv_at_def)
qed

lemma ok_upto_pred:
  "0 < J \<Longrightarrow> ok_upto ext P (J - 1) \<Longrightarrow> worker_body ext (P ! (J - 1)) = Inr (i, pos, None) \<Longrightarrow>
   ok_upto ext P J"
  using ok_upto_Suc [of ext P "J - 1"] by (simp add: pair_e_def)

lemma inv_emit_done:
  assumes pipeline_inv: "inv_at ext n P c K J s" and sst: "p_sst s = SEmit j [] pos None"
  shows "inv_at ext n P c K J (s\<lparr>p_sst := SRecv j\<rparr>)"
proof (rule inv_ser_only [OF pipeline_inv])
  from pipeline_inv have S: "inv_ser ext n P J s" by (simp add: inv_at_def)
  with sst have J: "0 < J" and j: "j = J mod n" and ok: "ok_upto ext P (J - 1)"
    and wb: "\<exists>i. worker_body ext (P ! (J - 1)) = Inr (i, pos, None)"
    and dec: "p_decoded s @ p_serializer s @ emitted_of (Some [], pos, None) = flat ext P J"
    and ncl: "\<not> p_closed s"
    unfolding inv_ser_def by blast+
  from J ok wb have "ok_upto ext P J" by (auto intro: ok_upto_pred)
  with j dec ncl show "inv_ser ext n P J (s\<lparr>p_sst := SRecv j\<rparr>)"
    by (simp add: inv_ser_def emitted_of_def payload_def)
qed simp_all

lemma inv_emit_error:
  assumes pipeline_inv: "inv_at ext n P c K J s" and sst: "p_sst s = SEmit j [] pos (Some err)"
  shows "inv_at ext n P c K J
           (s\<lparr>p_serializer := p_serializer s @ [(None, pos, Some err)], p_sst := SClose\<rparr>)"
proof (rule inv_ser_only [OF pipeline_inv])
  from pipeline_inv have S: "inv_ser ext n P J s" by (simp add: inv_at_def)
  with sst have J: "0 < J" and ok: "ok_upto ext P (J - 1)"
    and wb: "\<exists>i. worker_body ext (P ! (J - 1)) = Inr (i, pos, Some err)"
    and dec: "p_decoded s @ p_serializer s @ emitted_of (Some [], pos, Some err) = flat ext P J"
    and ncl: "\<not> p_closed s"
    unfolding inv_ser_def by blast+
  from wb have "failed_at ext P (J - 1)" by (auto simp: failed_at_def pair_e_def)
  with J ok dec ncl
  show "inv_ser ext n P J
          (s\<lparr>p_serializer := p_serializer s @ [(None, pos, Some err)], p_sst := SClose\<rparr>)"
    by (simp add: inv_ser_def emitted_of_def payload_def)
qed simp_all

lemma inv_close_serializer:
  assumes pipeline_inv: "inv_at ext n P c K J s" and sst: "p_sst s = SClose"
  shows "inv_at ext n P c K J (s\<lparr>p_closed := True, p_sst := SDone\<rparr>)"
proof (rule inv_ser_only [OF pipeline_inv])
  from pipeline_inv have S: "inv_ser ext n P J s" by (simp add: inv_at_def)
  with sst have J: "0 < J" and ok: "ok_upto ext P (J - 1)" and f: "failed_at ext P (J - 1)"
    and dec: "p_decoded s @ p_serializer s = flat ext P J"
    unfolding inv_ser_def by blast+
  from dec have "p_decoded s @ p_serializer s = flat ext P J @ replicate 0 eof_result \<and>
     (0 < (0::nat) \<longrightarrow> p_serializer s = [])" by simp
  then have "\<exists>m. p_decoded s @ p_serializer s = flat ext P J @ replicate m eof_result \<and>
     (0 < m \<longrightarrow> p_serializer s = [])" by blast
  with J ok f show "inv_ser ext n P J (s\<lparr>p_closed := True, p_sst := SDone\<rparr>)"
    by (simp add: inv_ser_def)
qed simp_all

lemma inv_decode:
  assumes pipeline_inv: "inv_at ext n P c K J s" and ser: "p_serializer s = x # xs"
  shows "inv_at ext n P c K J (s\<lparr>p_serializer := xs, p_decoded := p_decoded s @ [x]\<rparr>)"
proof (rule inv_ser_only [OF pipeline_inv])
  from pipeline_inv have S: "inv_ser ext n P J s" by (simp add: inv_at_def)
  then show "inv_ser ext n P J (s\<lparr>p_serializer := xs, p_decoded := p_decoded s @ [x]\<rparr>)"
    using ser unfolding inv_ser_def by (auto split: if_splits)
qed simp_all

lemma inv_decode_eof:
  assumes pipeline_inv: "inv_at ext n P c K J s" and ser: "p_serializer s = []" and cl: "p_closed s"
  shows "inv_at ext n P c K J (s\<lparr>p_decoded := p_decoded s @ [eof_result]\<rparr>)"
proof (rule inv_ser_only [OF pipeline_inv])
  from pipeline_inv have S: "inv_ser ext n P J s" by (simp add: inv_at_def)
  from S cl have sst: "p_sst s = SDone"
    unfolding inv_ser_def by (cases "p_sst s") auto
  with S obtain m where J: "0 < J" and ok: "ok_upto ext P (J - 1)"
    and f: "failed_at ext P (J - 1)"
    and dec: "p_decoded s @ p_serializer s = flat ext P J @ replicate m eof_result"
    unfolding inv_ser_def by blast
  from dec ser have "p_decoded s @ [eof_result] = flat ext P J @ replicate (Suc m) eof_result"
    by (simp add: replicate_append_same)
  then have "\<exists>m. p_decoded s @ [eof_result] = flat ext P J @ replicate m eof_result" by blast
  with J ok f sst cl ser
  show "inv_ser ext n P J (s\<lparr>p_decoded := p_decoded s @ [eof_result]\<rparr>)"
    by (simp add: inv_ser_def)
qed simp_all

lemma inv_step:
  assumes n: "0 < n" and pipeline_inv: "pipeline_inv ext n r s" and st: "step ext n s s'"
  shows "pipeline_inv ext n r s'"
proof -
  let ?P = "fst (reader_pairs ext r)" and ?c = "snd (reader_pairs ext r)"
  from pipeline_inv obtain K J where I: "inv_at ext n ?P ?c K J s" by (auto simp: pipeline_inv_def)
  from st show ?thesis
  proof cases
    case (read i)
    with inv_read [OF I] show ?thesis by (auto simp: pipeline_inv_def)
  next
    case (send i p)
    with inv_send [OF n I] show ?thesis unfolding pipeline_inv_def by blast
  next
    case (close_input k)
    with inv_close_input [OF I] show ?thesis unfolding pipeline_inv_def by blast
  next
    case (work w p)
    with inv_work [OF n I] show ?thesis unfolding pipeline_inv_def by blast
  next
    case (worker_exit w)
    with inv_worker_exit [OF I] show ?thesis unfolding pipeline_inv_def by blast
  next
    case (recv j i pos e)
    with inv_recv [OF n I] show ?thesis unfolding pipeline_inv_def by blast
  next
    case (recv_closed j)
    with recv_closed_unreachable [OF n I] show ?thesis by blast
  next
    case (emit j obj objs pos e)
    with inv_emit [OF I] show ?thesis unfolding pipeline_inv_def by blast
  next
    case (emit_done j pos)
    with inv_emit_done [OF I] show ?thesis unfolding pipeline_inv_def by blast
  next
    case (emit_error j pos err)
    with inv_emit_error [OF I] show ?thesis unfolding pipeline_inv_def by blast
  next
    case close_serializer
    with inv_close_serializer [OF I] show ?thesis unfolding pipeline_inv_def by blast
  next
    case (decode x xs)
    with inv_decode [OF I] show ?thesis unfolding pipeline_inv_def by blast
  next
    case decode_eof
    with inv_decode_eof [OF I] show ?thesis unfolding pipeline_inv_def eof_result_def by blast
  qed
qed

lemma reachable_inv:
  assumes n: "0 < n" and "reachable ext n r s"
  shows "pipeline_inv ext n r s"
  using assms(2) unfolding reachable_def
proof (induction rule: rtranclp_induct)
  case base
  show ?case unfolding pipeline_inv_def using inv_init [OF n, of ext r] by (metis prod.collapse)
next
  case (step y z)
  then show ?case using inv_step [OF n] by blast
qed

subsection \<open>The pipeline: results follow the order of the file\<close>

lemma file_order_split:
  "ok_upto ext P J \<Longrightarrow> J \<le> length P \<Longrightarrow>
   file_order ext P = flat ext P J @ file_order ext (drop J P)"
proof (induction J)
  case 0
  then show ?case by (simp add: flat_def)
next
  case (Suc J)
  from Suc.prems have ok: "ok_upto ext P J" and J: "J < length P"
    and q: "\<exists>q. worker_body ext (P ! J) = Inr q \<and> pair_e q = None"
    by (simp_all add: ok_upto_Suc)
  from q obtain q where q: "worker_body ext (P ! J) = Inr q" "pair_e q = None" by blast
  from J have "drop J P = P ! J # drop (Suc J) P" by (simp add: Cons_nth_drop_Suc)
  with q have "file_order ext (drop J P) = emitted_of q @ file_order ext (drop (Suc J) P)"
    by simp
  with Suc.IH [OF ok] J q show ?case by (simp add: flat_Suc)
qed

lemma file_order_failed:
  assumes "0 < J" and "J \<le> length P" and "ok_upto ext P (J - 1)"
    and "failed_at ext P (J - 1)"
  shows "file_order ext P = flat ext P J"
proof -
  from assms(4) obtain q e where q: "worker_body ext (P ! (J - 1)) = Inr q" "pair_e q = Some e"
    by (auto simp: failed_at_def)
  from assms(1,2) have "drop (J - 1) P = P ! (J - 1) # drop J P"
    by (metis Cons_nth_drop_Suc Suc_pred' less_eq_Suc_le)
  with q have "file_order ext (drop (J - 1) P) = emitted_of q" by simp
  moreover from assms(1,2) q have "flat ext P J = flat ext P (J - 1) @ emitted_of q"
    using flat_Suc [of "J - 1" P ext] by simp
  ultimately show ?thesis
    using file_order_split [OF assms(3)] assms(2) by simp
qed

lemma flat_prefix_file_order:
  assumes "0 < J" and "J \<le> length P" and "ok_upto ext P (J - 1)"
    and "worker_body ext (P ! (J - 1)) = Inr q"
  shows "prefix (flat ext P J) (file_order ext P)"
proof -
  from assms(1,2) have "drop (J - 1) P = P ! (J - 1) # drop J P"
    by (metis Cons_nth_drop_Suc Suc_pred' less_eq_Suc_le)
  with assms(4) have "prefix (emitted_of q) (file_order ext (drop (J - 1) P))" by simp
  moreover from assms have "flat ext P J = flat ext P (J - 1) @ emitted_of q"
    using flat_Suc [of "J - 1" P ext] by simp
  ultimately show ?thesis
    using file_order_split [OF assms(3)] assms(2) by simp
qed

lemma inv_decoded:
  assumes "pipeline_inv ext n r s"
  shows "prefix (p_decoded s) (expected ext r) \<or>
         (\<exists>m. p_decoded s = expected ext r @ replicate m eof_result)"
proof -
  let ?P = "fst (reader_pairs ext r)" and ?c = "snd (reader_pairs ext r)"
  from assms obtain K J where W: "inv_workers ext n ?P K J s" and S: "inv_ser ext n ?P J s"
    by (auto simp: pipeline_inv_def inv_at_def)
  from W have J: "J \<le> length ?P" by (simp add: inv_workers_def)
  show ?thesis
  proof (cases "p_sst s")
    case (SRecv j)
    with S have "ok_upto ext ?P J" "p_decoded s @ p_serializer s = flat ext ?P J"
      unfolding inv_ser_def by blast+
    with J have "prefix (p_decoded s @ p_serializer s) (expected ext r)"
      using file_order_split [of ext ?P J] by (simp add: expected_def)
    then show ?thesis using append_prefixD by blast
  next
    case (SEmit j objs pos e)
    with S obtain i where "0 < J" "ok_upto ext ?P (J - 1)"
      "worker_body ext (?P ! (J - 1)) = Inr (i, pos, e)"
      "p_decoded s @ p_serializer s @ emitted_of (Some objs, pos, e) = flat ext ?P J"
      unfolding inv_ser_def by blast
    with J have "prefix (p_decoded s @ p_serializer s @ emitted_of (Some objs, pos, e))
        (expected ext r)"
      using flat_prefix_file_order [of J ?P ext] by (simp add: expected_def)
    then show ?thesis using append_prefixD by blast
  next
    case SClose
    with S have "0 < J" "ok_upto ext ?P (J - 1)" "failed_at ext ?P (J - 1)"
      "p_decoded s @ p_serializer s = flat ext ?P J"
      unfolding inv_ser_def by blast+
    with J have "p_decoded s @ p_serializer s = expected ext r"
      using file_order_failed [of J ?P ext] by (simp add: expected_def)
    then show ?thesis by (metis prefixI)
  next
    case SDone
    with S obtain m where "0 < J" "ok_upto ext ?P (J - 1)" "failed_at ext ?P (J - 1)"
      and dec: "p_decoded s @ p_serializer s = flat ext ?P J @ replicate m eof_result"
      and m: "0 < m \<longrightarrow> p_serializer s = []"
      unfolding inv_ser_def by blast
    with J have E: "flat ext ?P J = expected ext r"
      using file_order_failed [of J ?P ext] by (simp add: expected_def)
    show ?thesis
    proof (cases "m = 0")
      case True
      with dec E have "p_decoded s @ p_serializer s = expected ext r" by simp
      then show ?thesis by (metis prefixI)
    next
      case False
      with m dec E show ?thesis by auto
    qed
  qed
qed

subsection \<open>The pipeline: every call of Decode returns\<close>

lemma sum_list_map_update:
  "i < length xs \<Longrightarrow>
   sum_list (map f (xs[i := v])) + f (xs ! i) = sum_list (map f xs) + (f v :: nat)"
proof (induction xs arbitrary: i)
  case Nil
  then show ?case by simp
next
  case (Cons x xs)
  then show ?case by (cases i) auto
qed

lemma cost_read:
  assumes rst: "p_rst s = RRead i" and np: "p_panic (reader_read ext i s) = None"
    and p0: "p_panic s = None"
  shows "cost ext n (reader_read ext i s) < cost ext n s"
proof -
  obtain ps c where rp: "reader_pairs ext (p_reader s) = (ps, c)"
    by (cases "reader_pairs ext (p_reader s)")
  from rp show ?thesis
  proof (cases rule: reader_pairs_cases)
    case (panic pn pos r')
    with np show ?thesis by simp
  next
    case (error e pos r')
    then have "reader_read ext i s = s\<lparr>p_reader := r', p_rst := RSend i (None, pos, Some e)\<rparr>"
      by simp
    with rst rp error(1) show ?thesis
      by (simp add: cost_def future_cost_def pair_e_def)
  next
    case (block blob pos r' ps')
    then have "reader_read ext i s = s\<lparr>p_reader := r', p_rst := RSend i (Some blob, pos, None)\<rparr>"
      by simp
    with rst rp block(1,2) show ?thesis
      by (simp add: cost_def future_cost_def pair_e_def)
  qed
qed

lemma cost_send:
  assumes rst: "p_rst s = RSend i p" and i: "i < length (p_workers s)"
    and idle: "p_workers s ! i = WIdle"
  shows "cost ext n (s\<lparr>p_workers := (p_workers s)[i := WBusy p],
                     p_rst := (if pair_e p = None then RRead ((i + 1) mod n) else RClose 0)\<rparr>)
         < cost ext n s"
  using sum_list_map_update [OF i, of "wcost ext" "WBusy p"] rst idle
  by (simp add: cost_def)

lemma cost_close_input:
  assumes rst: "p_rst s = RClose k"
  shows "cost ext n (s\<lparr>p_rst := (if k < n then RClose (Suc k) else RDone)\<rparr>) < cost ext n s"
  using rst by (auto simp: cost_def)

lemma cost_work:
  assumes w: "w < length (p_workers s)" and busy: "p_workers s ! w = WBusy p"
    and q: "worker_body ext p = Inr q"
  shows "cost ext n (s\<lparr>p_workers := (p_workers s)[w := WSend q]\<rparr>) < cost ext n s"
  using sum_list_map_update [OF w, of "wcost ext" "WSend q"] busy q
  by (simp add: cost_def pcost_def)

lemma cost_worker_exit:
  assumes w: "w < length (p_workers s)" and idle: "p_workers s ! w = WIdle"
  shows "cost ext n (s\<lparr>p_workers := (p_workers s)[w := WDone]\<rparr>) < cost ext n s"
  using sum_list_map_update [OF w, of "wcost ext" WDone] idle
  by (simp add: cost_def)

lemma cost_recv:
  assumes sst: "p_sst s = SRecv j" and j: "j < length (p_workers s)"
    and snd: "p_workers s ! j = WSend (i, pos, e)"
  shows "cost ext n (s\<lparr>p_workers := (p_workers s)[j := WIdle],
                     p_sst := SEmit ((j + 1) mod n) (payload i) pos e\<rparr>) < cost ext n s"
  using sum_list_map_update [OF j, of "wcost ext" WIdle] sst snd
  by (simp add: cost_def scost_def pair_e_def)

lemma cost_step:
  assumes n: "0 < n" and pipeline_inv: "pipeline_inv ext n r s" and st: "step ext n s s'"
    and dec: "p_decoded s' = p_decoded s" and np: "p_panic s' = None"
  shows "cost ext n s' < cost ext n s"
  using st
proof cases
  case (read i)
  with np show ?thesis by (simp add: cost_read)
next
  case (send i p)
  with cost_send [of s i p ext n] show ?thesis by simp
next
  case (close_input k)
  then show ?thesis by (simp add: cost_close_input)
next
  case (work w p)
  with np obtain q where "worker_body ext p = Inr q" by (cases "worker_body ext p") auto
  with work show ?thesis by (simp add: cost_work)
next
  case (worker_exit w)
  then show ?thesis by (simp add: cost_worker_exit)
next
  case (recv j i pos e)
  with cost_recv [of s j i pos e ext n] show ?thesis by simp
next
  case (recv_closed j)
  from pipeline_inv obtain K J where
    "inv_at ext n (fst (reader_pairs ext r)) (snd (reader_pairs ext r)) K J s"
    by (auto simp: pipeline_inv_def)
  from recv_closed_unreachable [OF n this] recv_closed show ?thesis by blast
next
  case (emit j obj objs pos e)
  then show ?thesis by (simp add: cost_def)
next
  case (emit_done j pos)
  then show ?thesis by (simp add: cost_def)
next
  case (emit_error j pos err)
  then show ?thesis by (simp add: cost_def)
next
  case close_serializer
  then show ?thesis by (simp add: cost_def)
next
  case (decode x xs)
  with dec show ?thesis by simp
next
  case decode_eof
  with dec show ?thesis by simp
qed

lemma busy_in_pairs:
  assumes n: "0 < n" and W: "inv_workers ext n P K J s" and w: "w < length (p_workers s)"
    and busy: "p_workers s ! w = WBusy p"
  shows "p \<in> set P"
proof -
  from W have len: "length (p_workers s) = n" and K: "K \<le> length P"
    and hold: "\<forall>k. J \<le> k \<and> k < K \<longrightarrow> holds ext (p_workers s ! (k mod n)) (P ! k)"
    and free: "\<forall>w<n. (\<forall>k. J \<le> k \<and> k < K \<longrightarrow> k mod n \<noteq> w) \<longrightarrow>
          p_workers s ! w = WIdle \<or> p_workers s ! w = WDone"
    by (simp_all add: inv_workers_def)
  from w len have "w < n" by simp
  with free busy have "\<not> (\<forall>k. J \<le> k \<and> k < K \<longrightarrow> k mod n \<noteq> w)" by auto
  then obtain k where k: "J \<le> k" "k < K" "k mod n = w" by blast
  with hold busy have "p = P ! k" by auto
  with k K show ?thesis by simp
qed

lemma step_no_panic:
  assumes n: "0 < n" and pf: "panic_free ext r" and pipeline_inv: "pipeline_inv ext n r s"
    and st: "step ext n s s'"
  shows "p_panic s' = None"
proof -
  let ?P = "fst (reader_pairs ext r)" and ?c = "snd (reader_pairs ext r)"
  from pipeline_inv obtain K J where R: "inv_reader ext n ?P ?c K s" and W: "inv_workers ext n ?P K J s"
    by (auto simp: pipeline_inv_def inv_at_def)
  from pf have c: "?c = None" and wb: "\<forall>p\<in>set ?P. \<exists>q. worker_body ext p = Inr q"
    by (simp_all add: panic_free_def)
  from st show ?thesis
  proof cases
    case (read i)
    with R c have rp: "reader_pairs ext (p_reader s) = (drop K ?P, None)"
      unfolding inv_reader_def by auto
    from rp read show ?thesis
      by (cases rule: reader_pairs_cases) simp_all
  next
    case (work w p)
    from busy_in_pairs [OF n W work(3,4)] wb obtain q where "worker_body ext p = Inr q"
      by blast
    with work show ?thesis by simp
  qed simp_all
qed

lemma reachable_no_panic:
  assumes n: "0 < n" and pf: "panic_free ext r" and re: "reachable ext n r s"
  shows "p_panic s = None"
  using re unfolding reachable_def
proof (induction rule: rtranclp_induct)
  case base
  show ?case by (simp add: init_def)
next
  case (step y z)
  from step(1) have "pipeline_inv ext n r y" using reachable_inv [OF n] by (simp add: reachable_def)
  from step_no_panic [OF n pf this step(2)] show ?case .
qed

lemma p_decoded_reader_read [simp]: "p_decoded (reader_read ext i s) = p_decoded s"
  by (auto simp: reader_read_def split: prod.splits sum.splits failure.splits)

lemma progressI:
  "step ext n s s' \<Longrightarrow> p_decoded s' = p_decoded s \<Longrightarrow>
   \<exists>s'. step ext n s s' \<and> p_decoded s' = p_decoded s"
  by blast

lemma progress:
  assumes n: "0 < n" and pipeline_inv: "pipeline_inv ext n r s" and np: "p_panic s = None"
    and empty: "p_serializer s = []" and ncl: "\<not> p_closed s"
  shows "\<exists>s'. step ext n s s' \<and> p_decoded s' = p_decoded s"
proof -
  let ?P = "fst (reader_pairs ext r)" and ?c = "snd (reader_pairs ext r)"
  from pipeline_inv obtain K J where R: "inv_reader ext n ?P ?c K s" and W: "inv_workers ext n ?P K J s"
    and S: "inv_ser ext n ?P J s"
    by (auto simp: pipeline_inv_def inv_at_def)
  from W have len: "length (p_workers s) = n" by (simp add: inv_workers_def)
  show ?thesis
  proof (cases "p_sst s")
    case (SEmit j objs pos e)
    show ?thesis
    proof (cases objs)
      case (Cons obj objs')
      with SEmit np empty have "step ext n s
        (s\<lparr>p_serializer := p_serializer s @ [(Some obj, pos, None)],
           p_sst := SEmit j objs' pos e\<rparr>)"
        by (intro step.emit) (simp_all add: serializer_cap_def)
      then show ?thesis by (rule progressI) simp
    next
      case Nil
      show ?thesis
      proof (cases e)
        case None
        with Nil SEmit np have "step ext n s (s\<lparr>p_sst := SRecv j\<rparr>)"
          by (intro step.emit_done [of _ j pos]) simp_all
        then show ?thesis by (rule progressI) simp
      next
        case (Some err)
        with Nil SEmit np empty have "step ext n s
          (s\<lparr>p_serializer := p_serializer s @ [(None, pos, Some err)], p_sst := SClose\<rparr>)"
          by (intro step.emit_error [of _ j]) (simp_all add: serializer_cap_def)
        then show ?thesis by (rule progressI) simp
      qed
    qed
  next
    case SClose
    with np have "step ext n s (s\<lparr>p_closed := True, p_sst := SDone\<rparr>)"
      by (intro step.close_serializer) simp_all
    then show ?thesis by (rule progressI) simp
  next
    case SDone
    with S ncl show ?thesis by (simp add: inv_ser_def)
  next
    case (SRecv j)
    with S have j: "j = J mod n" unfolding inv_ser_def by blast
    with n len have jlen: "j < length (p_workers s)" by simp
    show ?thesis
    proof (cases "p_workers s ! j")
      case (WSend q)
      obtain i pos e where q: "q = (i, pos, e)" by (cases q)
      with WSend SRecv np jlen have "step ext n s
        (s\<lparr>p_workers := (p_workers s)[j := WIdle],
           p_sst := SEmit ((j + 1) mod n) (payload i) pos e\<rparr>)"
        by (intro step.recv) simp_all
      then show ?thesis by (rule progressI) simp
    next
      case (WBusy p)
      with np jlen have "step ext n s
        (case worker_body ext p of
           Inl pn \<Rightarrow> s\<lparr>p_panic := Some pn\<rparr>
         | Inr q \<Rightarrow> s\<lparr>p_workers := (p_workers s)[j := WSend q]\<rparr>)"
        by (intro step.work) simp_all
      moreover have "p_decoded (case worker_body ext p of
           Inl pn \<Rightarrow> s\<lparr>p_panic := Some pn\<rparr>
         | Inr q \<Rightarrow> s\<lparr>p_workers := (p_workers s)[j := WSend q]\<rparr>) = p_decoded s"
        by (cases "worker_body ext p") simp_all
      ultimately show ?thesis by blast
    next
      case WDone
      with SRecv np jlen have "step ext n s (s\<lparr>p_sst := SRecv ((j + 1) mod n)\<rparr>)"
        by (intro step.recv_closed) simp_all
      then show ?thesis by (rule progressI) simp
    next
      case WIdle
      with not_holding_is_empty [OF n W] j have JK: "J = K" by simp
      show ?thesis
      proof (cases "p_rst s")
        case (RRead i)
        with np have "step ext n s (reader_read ext i s)" by (intro step.read)
        then show ?thesis by (rule progressI) simp
      next
        case (RSend i p)
        with R have "i = K mod n" unfolding inv_reader_def by blast
        with JK j have "i = j" by simp
        with RSend WIdle np jlen have "step ext n s
          (s\<lparr>p_workers := (p_workers s)[i := WBusy p],
             p_rst := (if pair_e p = None then RRead ((i + 1) mod n) else RClose 0)\<rparr>)"
          by (intro step.send) simp_all
        then show ?thesis by (rule progressI) simp
      next
        case (RClose k)
        with np have "step ext n s (s\<lparr>p_rst := (if k < n then RClose (Suc k) else RDone)\<rparr>)"
          by (intro step.close_input) simp_all
        then show ?thesis by (rule progressI) simp
      next
        case RDone
        with WIdle np jlen have "step ext n s (s\<lparr>p_workers := (p_workers s)[j := WDone]\<rparr>)"
          by (intro step.worker_exit) (simp_all add: input_closed_def)
        then show ?thesis by (rule progressI) simp
      qed
    qed
  qed
qed

lemma reachable_step:
  "reachable ext n r s \<Longrightarrow> step ext n s s' \<Longrightarrow> reachable ext n r s'"
  by (simp add: reachable_def)

lemma reachable_steps:
  "reachable ext n r s \<Longrightarrow> rtranclp (step ext n) s s' \<Longrightarrow> reachable ext n r s'"
  by (simp add: reachable_def)

lemma next_result:
  assumes n: "0 < n" and pf: "panic_free ext r"
  shows "reachable ext n r s \<Longrightarrow>
         \<exists>s'. rtranclp (step ext n) s s' \<and> length (p_decoded s') = Suc (length (p_decoded s))"
proof (induction "cost ext n s" arbitrary: s rule: less_induct)
  case less
  from less.prems have I: "pipeline_inv ext n r s" by (rule reachable_inv [OF n])
  from less.prems have np: "p_panic s = None" by (rule reachable_no_panic [OF n pf])
  show ?case
  proof (cases "p_serializer s")
    case (Cons x xs)
    with np have "step ext n s (s\<lparr>p_serializer := xs, p_decoded := p_decoded s @ [x]\<rparr>)"
      by (intro step.decode) simp_all
    then have "rtranclp (step ext n) s (s\<lparr>p_serializer := xs, p_decoded := p_decoded s @ [x]\<rparr>)"
      by (rule r_into_rtranclp)
    moreover have "length (p_decoded (s\<lparr>p_serializer := xs, p_decoded := p_decoded s @ [x]\<rparr>)) =
      Suc (length (p_decoded s))" by simp
    ultimately show ?thesis by blast
  next
    case Nil
    show ?thesis
    proof (cases "p_closed s")
      case True
      with Nil np have "step ext n s (s\<lparr>p_decoded := p_decoded s @ [(None, 0, Some EOF)]\<rparr>)"
        by (intro step.decode_eof) simp_all
      then have "rtranclp (step ext n) s (s\<lparr>p_decoded := p_decoded s @ [(None, 0, Some EOF)]\<rparr>)"
        by (rule r_into_rtranclp)
      moreover have "length (p_decoded (s\<lparr>p_decoded := p_decoded s @ [(None, 0, Some EOF)]\<rparr>)) =
        Suc (length (p_decoded s))" by simp
      ultimately show ?thesis by blast
    next
      case False
      from progress [OF n I np Nil False] obtain s1 where
        s1: "step ext n s s1" "p_decoded s1 = p_decoded s" by blast
      from less.prems s1(1) have re1: "reachable ext n r s1" by (rule reachable_step)
      then have "p_panic s1 = None" by (rule reachable_no_panic [OF n pf])
      from cost_step [OF n I s1 this] have "cost ext n s1 < cost ext n s" .
      from less.hyps [OF this re1] obtain s' where
        "rtranclp (step ext n) s1 s'" "length (p_decoded s') = Suc (length (p_decoded s1))"
        by blast
      with s1 show ?thesis
        by (metis converse_rtranclp_into_rtranclp)
    qed
  qed
qed

lemma any_number_of_results:
  assumes n: "0 < n" and pf: "panic_free ext r"
  shows "\<exists>s. reachable ext n r s \<and> length (p_decoded s) = t"
proof (induction t)
  case 0
  have "reachable ext n r (init n r)" by (simp add: reachable_def)
  moreover have "length (p_decoded (init n r)) = 0" by (simp add: init_def)
  ultimately show ?case by blast
next
  case (Suc t)
  then obtain s where s: "reachable ext n r s" "length (p_decoded s) = t" by blast
  from next_result [OF n pf s(1)] obtain s' where
    "rtranclp (step ext n) s s'" "length (p_decoded s') = Suc (length (p_decoded s))" by blast
  with s reachable_steps [OF s(1)] show ?case by auto
qed

lemma decoded_is_take:
  assumes "prefix xs E \<or> (\<exists>m. xs = E @ replicate m x)"
  shows "xs = take (length xs) (E @ replicate (length xs) x)"
  using assms
proof
  assume "prefix xs E"
  then obtain ys where "E = xs @ ys" by (auto simp: prefix_def)
  then show ?thesis by simp
next
  assume "\<exists>m. xs = E @ replicate m x"
  then obtain m where "xs = E @ replicate m x" by blast
  then show ?thesis by (simp add: min_def)
qed

lemma reachable_decoded:
  assumes "0 < n" and "reachable ext n r s"
  shows "p_decoded s =
           take (length (p_decoded s))
             (expected ext r @ replicate (length (p_decoded s)) eof_result)"
  using inv_decoded [OF reachable_inv [OF assms]] by (rule decoded_is_take)

subsection \<open>The pipeline: the first error and the end of the stream\<close>







lemma Start_pipeline:
  "Start ext r0 N = Inr s0 \<Longrightarrow>
   s0 = init (worker_count N) (snd (Start_header ext r0)) \<and> 0 < worker_count N"
  by (auto simp: Start_def worker_count_def split: prod.splits option.splits)

lemma Start_reachable:
  "Start ext r0 N = Inr s0 \<Longrightarrow> rtranclp (step ext (worker_count N)) s0 s \<Longrightarrow>
   reachable ext (worker_count N) (snd (Start_header ext r0)) s"
  using Start_pipeline [of ext r0 N s0] by (simp add: reachable_def)

lemma sample_Start_header:
  "Start_header (sample_file_extern pb) sample_file =
     (None, \<lparr>rd_rest = [0, 0, 0, 1, 7], rd_pos = 4\<rparr>)"
  by (simp add: Start_header_def readFileBlock_def readBlobHeaderSize_def ReadFull_def
      sample_file_def BigEndian_Uint32_def maxBlobHeaderSize_def readBlobHeader_def
      readBlob_def sample_file_extern_def maxBlobSize_def decodeOSMHeader_def getData_def
      has_capability_def parseCapabilities_def Let_def)

lemma sample_Start:
  "Start (sample_file_extern pb) sample_file N =
     Inr (init (worker_count N) \<lparr>rd_rest = [0, 0, 0, 1, 7], rd_pos = 4\<rparr>)"
  by (simp add: Start_def sample_Start_header)

lemma sample_readFileBlock_1:
  "readFileBlock (sample_file_extern pb) \<lparr>rd_rest = [0, 0, 0, 1, 7], rd_pos = 4\<rparr> =
     (Inr (\<lparr>BH_type = ''OSMData'', BH_datasize = 0\<rparr>,
           \<lparr>Blob_raw = Some [], Blob_raw_size = None, Blob_zlib_data = None\<rparr>), 4,
      \<lparr>rd_rest = [], rd_pos = 9\<rparr>)"
  by (simp add: readFileBlock_def readBlobHeaderSize_def ReadFull_def
      BigEndian_Uint32_def maxBlobHeaderSize_def readBlobHeader_def
      readBlob_def sample_file_extern_def maxBlobSize_def Let_def)

lemma sample_readFileBlock_2:
  "readFileBlock (sample_file_extern pb) \<lparr>rd_rest = [], rd_pos = 9\<rparr> =
     (Inl (Error EOF), 9, \<lparr>rd_rest = [], rd_pos = 9\<rparr>)"
  by (simp add: readFileBlock_def readBlobHeaderSize_def ReadFull_def Let_def)

lemma sample_reader_pairs:
  "reader_pairs (sample_file_extern pb) \<lparr>rd_rest = [0, 0, 0, 1, 7], rd_pos = 4\<rparr> =
     ([(Some \<lparr>Blob_raw = Some [], Blob_raw_size = None, Blob_zlib_data = None\<rparr>, 4, None),
       (None, 9, Some EOF)], None)"
  by (simp add: reader_pairs.simps [of _ "\<lparr>rd_rest = [0, 0, 0, 1, 7], rd_pos = 4\<rparr>"]
      reader_pairs.simps [of _ "\<lparr>rd_rest = [], rd_pos = 9\<rparr>"]
      sample_readFileBlock_1 sample_readFileBlock_2)

lemma sample_Decode:
  "Decode (sample_file_extern sample_way_block)
     \<lparr>Blob_raw = Some [], Blob_raw_size = None, Blob_zlib_data = None\<rparr> = Inr [sample_way]"
  by (simp add: Decode_def getData_def sample_file_extern_def sample_way_block_def
      block_with_def example_block_def group_of_def example_way_def sample_way_def
      parsePrimitiveBlock_def parsePrimitiveGroup_def parseDenseNodes_def GetId_def
      extractTags_def way_nodeIDs_def info_Time_def Let_def)

lemma sample_expected:
  "expected (sample_file_extern sample_way_block) \<lparr>rd_rest = [0, 0, 0, 1, 7], rd_pos = 4\<rparr> =
     [(Some sample_way, 4, None), (None, 9, Some EOF)]"
  by (simp add: expected_def sample_reader_pairs worker_body_def sample_Decode emitted_of_def
      payload_def pair_e_def)

lemma sample_panic_free:
  "panic_free (sample_file_extern sample_way_block) \<lparr>rd_rest = [0, 0, 0, 1, 7], rd_pos = 4\<rparr>"
  by (simp add: panic_free_def sample_reader_pairs worker_body_def sample_Decode)


text \<open>
  Claim C2. Let \<open>Start\<close> have started the pipeline with \<open>N\<close> workers (at least one: a count
  below 1 is 1). In every state that the goroutines and the calls of \<open>Decode\<close> can reach,
  in whatever order they take their steps, the results returned by \<open>Decode\<close> so far are
  the first results of one fixed sequence: the entities of the file's blocks in the
  order of the file, each with the position of its block, up to the first error, and
  then \<open>io.EOF\<close> for ever. That sequence is defined without \<open>N\<close>, so two pipelines on the
  same input with any two worker counts have returned the same results after the same
  number of calls. When no block makes the decoder panic, every number of results is
  reached.
\<close>

theorem emission_order_is_file_order:
  assumes "Start ext r0 N = Inr s0" and "Start ext r0 N' = Inr s0'"
  shows "(\<forall>s. rtranclp (step ext (worker_count N)) s0 s \<longrightarrow>
            p_decoded s =
              take (length (p_decoded s))
                (expected ext (snd (Start_header ext r0)) @
                 replicate (length (p_decoded s)) (None, 0, Some EOF))) \<and>
         (\<forall>s s'. rtranclp (step ext (worker_count N)) s0 s \<and>
                 rtranclp (step ext (worker_count N')) s0' s' \<and>
                 length (p_decoded s) = length (p_decoded s') \<longrightarrow>
                 p_decoded s = p_decoded s') \<and>
         (panic_free ext (snd (Start_header ext r0)) \<longrightarrow>
            (\<forall>t. \<exists>s. rtranclp (step ext (worker_count N)) s0 s \<and> length (p_decoded s) = t))"
proof -
  let ?r = "snd (Start_header ext r0)"
  from Start_pipeline [OF assms(1)] have s0: "s0 = init (worker_count N) ?r"
    and n: "0 < worker_count N" by simp_all
  from Start_pipeline [OF assms(2)] have s0': "s0' = init (worker_count N') ?r"
    and n': "0 < worker_count N'" by simp_all
  have a: "p_decoded s =
      take (length (p_decoded s))
        (expected ext ?r @ replicate (length (p_decoded s)) (None, 0, Some EOF))"
    if "rtranclp (step ext (worker_count N)) s0 s" for s
    using reachable_decoded [OF n, of ext ?r s] that s0
    by (simp add: reachable_def eof_result_def)
  have a': "p_decoded s =
      take (length (p_decoded s))
        (expected ext ?r @ replicate (length (p_decoded s)) (None, 0, Some EOF))"
    if "rtranclp (step ext (worker_count N')) s0' s" for s
    using reachable_decoded [OF n', of ext ?r s] that s0'
    by (simp add: reachable_def eof_result_def)
  have b: "p_decoded s = p_decoded s'"
    if "rtranclp (step ext (worker_count N)) s0 s"
      "rtranclp (step ext (worker_count N')) s0' s'"
      "length (p_decoded s) = length (p_decoded s')" for s s'
    using a [OF that(1)] a' [OF that(2)] that(3) by simp
  have c: "\<exists>s. rtranclp (step ext (worker_count N)) s0 s \<and> length (p_decoded s) = t"
    if "panic_free ext ?r" for t
    using any_number_of_results [OF n that, of t] s0 by (simp add: reachable_def)
  from a b c show ?thesis by blast
qed

text \<open>
  A file with a header block and one data block that holds the way of the spec's scenario 3,
  decoded with one worker and with eight.
\<close>

theorem emission_order_is_file_order_witness:
  "Start (sample_file_extern sample_way_block) sample_file 1 =
     Inr (init 1 \<lparr>rd_rest = [0, 0, 0, 1, 7], rd_pos = 4\<rparr>) \<and>
   Start (sample_file_extern sample_way_block) sample_file 8 =
     Inr (init 8 \<lparr>rd_rest = [0, 0, 0, 1, 7], rd_pos = 4\<rparr>) \<and>
   panic_free (sample_file_extern sample_way_block)
     (snd (Start_header (sample_file_extern sample_way_block) sample_file)) \<and>
   (\<exists>s. rtranclp (step (sample_file_extern sample_way_block) 1)
          (init 1 \<lparr>rd_rest = [0, 0, 0, 1, 7], rd_pos = 4\<rparr>) s \<and>
        p_decoded s = [(Some sample_way, 4, None), (None, 9, Some EOF), (None, 0, Some EOF)]) \<and>
   (\<exists>s. rtranclp (step (sample_file_extern sample_way_block) 8)
          (init 8 \<lparr>rd_rest = [0, 0, 0, 1, 7], rd_pos = 4\<rparr>) s \<and>
        p_decoded s = [(Some sample_way, 4, None), (None, 9, Some EOF), (None, 0, Some EOF)])"
proof -
  let ?ext = "sample_file_extern sample_way_block"
  let ?r = "\<lparr>rd_rest = [0, 0, 0, 1, 7], rd_pos = 4\<rparr>"
  have w1: "worker_count 1 = 1" and w8: "worker_count 8 = 8" by (simp_all add: worker_count_def)
  have S1: "Start ?ext sample_file 1 = Inr (init (worker_count 1) ?r)"
    and S8: "Start ?ext sample_file 8 = Inr (init (worker_count 8) ?r)"
    by (simp_all add: sample_Start)
  have r: "snd (Start_header ?ext sample_file) = ?r" by (simp add: sample_Start_header)
  have pf: "panic_free ?ext (snd (Start_header ?ext sample_file))"
    by (simp add: r sample_panic_free)
  have three: "take 3 (expected ?ext ?r @ replicate 3 (None, 0, Some EOF)) =
      [(Some sample_way, 4, None), (None, 9, Some EOF), (None, 0, Some EOF)]"
    by (simp add: sample_expected numeral_3_eq_3)
  from emission_order_is_file_order [OF S1 S8] pf
  obtain s where "rtranclp (step ?ext (worker_count 1)) (init (worker_count 1) ?r) s"
    "length (p_decoded s) = 3"
    "p_decoded s = take (length (p_decoded s))
       (expected ?ext (snd (Start_header ?ext sample_file)) @
        replicate (length (p_decoded s)) (None, 0, Some EOF))"
    by metis
  with three r w1 have e1: "\<exists>s. rtranclp (step ?ext 1) (init 1 ?r) s \<and>
      p_decoded s = [(Some sample_way, 4, None), (None, 9, Some EOF), (None, 0, Some EOF)]"
    by auto
  from emission_order_is_file_order [OF S8 S1] pf
  obtain s where "rtranclp (step ?ext (worker_count 8)) (init (worker_count 8) ?r) s"
    "length (p_decoded s) = 3"
    "p_decoded s = take (length (p_decoded s))
       (expected ?ext (snd (Start_header ?ext sample_file)) @
        replicate (length (p_decoded s)) (None, 0, Some EOF))"
    by metis
  with three r w8 have e8: "\<exists>s. rtranclp (step ?ext 8) (init 8 ?r) s \<and>
      p_decoded s = [(Some sample_way, 4, None), (None, 9, Some EOF), (None, 0, Some EOF)]"
    by auto
  from S1 S8 w1 w8 pf e1 e8 show ?thesis by simp
qed









lemma readFileBlock_position: "fst (snd (readFileBlock ext r)) = rd_pos r"
  by (simp add: readFileBlock_def Let_def split: prod.splits sum.splits)

text \<open>
  The position in a pair of the reader is the offset at which its block begins: that of
  the first pair is the offset of the reader, and the pairs after it are those of the
  reader as \<open>readFileBlock\<close> has left it.
\<close>

lemma reader_pairs_position:
  assumes "reader_pairs ext r = (p # ps, c)"
  shows "fst (snd p) = rd_pos r \<and>
         (ps \<noteq> [] \<longrightarrow> reader_pairs ext (snd (snd (readFileBlock ext r))) = (ps, c))"
  using assms readFileBlock_position [of ext r]
  by (subst (asm) reader_pairs.simps)
     (auto split: prod.splits sum.splits failure.splits if_splits)















end
